theory Spec2Isabelle
  imports Main "HOL-Library.Word"
begin

unbundle bit_operations_syntax

section \<open>RTPProxy: a relay for unencrypted RTP and RTCP\<close>

text \<open>
  The development embeds the class \<open>RTPProxy\<close>: the RTP rewrite path (\<open>rtpMessage\<close>),
  the RTCP compound codec (\<open>processRTCPMessage\<close>), the two RTCP relay directions
  (\<open>rtcpMessage\<close>, \<open>rtcpReply\<close>), \<open>sendOut\<close>, \<open>destroy\<close> and the adjacent pair
  allocator (\<open>createSocketPair\<close>).

  A \<open>Buffer\<close> is a list of bytes. A JavaScript \<open>number\<close> that the class stores is an
  \<open>int\<close> (integral values only); a value read from a buffer is a \<open>nat\<close>. A field of
  type \<open>number | null\<close> is an \<open>int option\<close>. Every exception the code can raise is a
  value of \<open>error\<close>; a method that mutates the instance returns the error (if any)
  together with the instance as the exception leaves it.
\<close>

subsection \<open>Buffers\<close>

type_synonym byte = "8 word"
type_synonym buffer = "byte list"

datatype error =
    ERR_OUT_OF_RANGE
  | ERR_SOCKET_DGRAM_NOT_RUNNING
  | ERR_SOCKET_BAD_PORT
  | TypeError

text \<open>\<open>buf.readUInt8(offset)\<close>, \<open>buf.readUInt16BE(offset)\<close>, \<open>buf.readUInt32BE(offset)\<close>:
  a read that does not lie inside the buffer raises.\<close>

definition readUInt8 :: "buffer \<Rightarrow> nat \<Rightarrow> error + nat" where
  "readUInt8 buf offset =
     (if offset + 1 \<le> length buf then Inr (unat (buf ! offset)) else Inl ERR_OUT_OF_RANGE)"

definition readUInt16BE :: "buffer \<Rightarrow> nat \<Rightarrow> error + nat" where
  "readUInt16BE buf offset =
     (if offset + 2 \<le> length buf
      then Inr (unat (buf ! offset) * 256 + unat (buf ! (offset + 1)))
      else Inl ERR_OUT_OF_RANGE)"

definition readUInt32BE :: "buffer \<Rightarrow> nat \<Rightarrow> error + nat" where
  "readUInt32BE buf offset =
     (if offset + 4 \<le> length buf
      then Inr (unat (buf ! offset) * 16777216 + unat (buf ! (offset + 1)) * 65536
                + unat (buf ! (offset + 2)) * 256 + unat (buf ! (offset + 3)))
      else Inl ERR_OUT_OF_RANGE)"

text \<open>\<open>buf.writeUInt8(value, offset)\<close> and \<open>buf.writeUInt32BE(value, offset)\<close>: the value
  must lie in the unsigned range and the bytes written must lie inside the buffer,
  otherwise the write raises and the buffer is left as it was.\<close>

definition writeUInt8 :: "buffer \<Rightarrow> int \<Rightarrow> nat \<Rightarrow> error + buffer" where
  "writeUInt8 buf v offset =
     (if v > 255 \<or> v < 0 then Inl ERR_OUT_OF_RANGE
      else if offset + 1 \<le> length buf then Inr (buf[offset := word_of_int v])
      else Inl ERR_OUT_OF_RANGE)"

definition writeUInt32BE :: "buffer \<Rightarrow> int \<Rightarrow> nat \<Rightarrow> error + buffer" where
  "writeUInt32BE buf v offset =
     (if v > 4294967295 \<or> v < 0 then Inl ERR_OUT_OF_RANGE
      else if offset + 4 \<le> length buf
      then Inr (buf[offset + 3 := word_of_int v,
                    offset + 2 := word_of_int (v div 256),
                    offset + 1 := word_of_int (v div 65536),
                    offset := word_of_int (v div 16777216)])
      else Inl ERR_OUT_OF_RANGE)"

text \<open>\<open>buf.slice(start, end)\<close> for \<open>start \<le> end \<le> buf.length\<close>. The slice of the source is
  a view on the same memory; the codec below only ever reads the parent buffer at
  offsets beyond the slices it has handed out, so a copy behaves the same.\<close>

definition slice :: "buffer \<Rightarrow> nat \<Rightarrow> nat \<Rightarrow> buffer" where
  "slice buf start end = take (end - start) (drop start buf)"

subsection \<open>JavaScript coercions\<close>

text \<open>The bitwise operators work on the operands converted to signed 32-bit integers;
  \<open>null\<close> converts to the number 0.\<close>

definition ToInt32 :: "int \<Rightarrow> int" where
  "ToInt32 x = (x + 2147483648) mod 4294967296 - 2147483648"

definition ToNumber :: "int option \<Rightarrow> int" where
  "ToNumber v = (case v of None \<Rightarrow> 0 | Some n \<Rightarrow> n)"

definition js_and :: "int \<Rightarrow> int \<Rightarrow> int" where
  "js_and a b = ToInt32 a AND ToInt32 b"

definition js_or :: "int \<Rightarrow> int \<Rightarrow> int" where
  "js_or a b = ToInt32 a OR ToInt32 b"

subsection \<open>The instance and the sockets it owns\<close>

text \<open>A socket is a handle. The effects of \<open>node:dgram\<close> that the class causes are kept
  with the instance: \<open>created\<close> counts the handles made by \<open>dgram.createSocket\<close>,
  \<open>bound\<close> lists the successful binds, \<open>closeCalls\<close> lists every call of \<open>close\<close> and
  \<open>sent\<close> every datagram given to \<open>send\<close>, all in the order they happen. The fields
  \<open>type\<close>, \<open>options\<close> and the late-bound server address and ports are not read by any
  operation below and are left out.\<close>

type_synonym sock = nat

record RTPProxy =
  startingPort :: int
  outgoingAddress :: string
  outgoingPort :: int
  incomingPayloadType :: int
  outgoingSSRC :: int
  incomingSSRC :: "int option"
  outgoingPayloadType :: "int option"
  disabled :: bool
  incomingRTPSocket :: "sock option"
  incomingRTCPSocket :: "sock option"
  outgoingSocket :: "sock option"
  created :: nat
  bound :: "(sock \<times> int) list"
  closeCalls :: "sock list"
  sent :: "(sock \<times> buffer \<times> int \<times> string) list"

text \<open>\<open>socket.close()\<close>: closing a socket that is already closed raises; the call is
  recorded either way.\<close>

definition socket_close :: "sock \<Rightarrow> RTPProxy \<Rightarrow> error option \<times> RTPProxy" where
  "socket_close k p =
     (if k \<in> set (closeCalls p) then Some ERR_SOCKET_DGRAM_NOT_RUNNING else None,
      p\<lparr>closeCalls := closeCalls p @ [k]\<rparr>)"

text \<open>\<open>socket.send(msg, port, address)\<close>: the port must be a valid port number and the
  socket must not have been closed.\<close>

definition socket_send :: "sock \<Rightarrow> buffer \<Rightarrow> int \<Rightarrow> string \<Rightarrow> RTPProxy \<Rightarrow> error option \<times> RTPProxy" where
  "socket_send k msg port address p =
     (if port \<le> 0 \<or> port > 65535 then (Some ERR_SOCKET_BAD_PORT, p)
      else if k \<in> set (closeCalls p) then (Some ERR_SOCKET_DGRAM_NOT_RUNNING, p)
      else (None, p\<lparr>sent := sent p @ [(k, msg, port, address)]\<rparr>))"

definition sendOut :: "RTPProxy \<Rightarrow> buffer \<Rightarrow> error option \<times> RTPProxy" where
  "sendOut p msg =
     (if outgoingAddress p = [] \<or> outgoingPort p = 0 then (None, p)
      else case outgoingSocket p of
             None \<Rightarrow> (Some TypeError, p)
           | Some k \<Rightarrow> socket_send k msg (outgoingPort p) (outgoingAddress p) p)"


subsection \<open>The RTP rewrite path\<close>

definition rtpMessage :: "RTPProxy \<Rightarrow> buffer \<Rightarrow> error option \<times> RTPProxy" where
  "rtpMessage p msg =
     (if length msg < 12 then sendOut p msg
      else case readUInt8 msg 1 of
        Inl e \<Rightarrow> (Some e, p)
      | Inr mpt \<Rightarrow>
          let pt = js_and (int mpt) 0x7F in
          (case (if pt = incomingPayloadType p
                 then writeUInt8 msg (js_or (js_and (int mpt) 0x80) (ToNumber (outgoingPayloadType p))) 1
                 else Inr msg) of
             Inl e \<Rightarrow> (Some e, p)
           | Inr msg1 \<Rightarrow>
               (case (if incomingSSRC p = None
                      then (case readUInt32BE msg1 4 of
                              Inl e \<Rightarrow> Inl e
                            | Inr v \<Rightarrow> Inr (p\<lparr>incomingSSRC := Some (int v)\<rparr>))
                      else Inr p) of
                  Inl e \<Rightarrow> (Some e, p)
                | Inr p1 \<Rightarrow>
                    (case writeUInt32BE msg1 (outgoingSSRC p1) 8 of
                       Inl e \<Rightarrow> (Some e, p1)
                     | Inr msg2 \<Rightarrow> sendOut p1 msg2))))"

subsection \<open>The RTCP compound codec\<close>

text \<open>The transform is a closure over the instance: it gets the packet type and the
  sub-packet, may change the state it closes over, and returns a buffer, or a falsy
  value (\<open>None\<close>), or raises. The \<open>while\<close> loop of \<open>processRTCPMessage\<close> is the
  function \<open>processRTCPMessage_loop\<close> on the loop variables \<open>offset\<close> and
  \<open>rtcpPackets\<close>; \<open>Buffer.concat\<close> is \<open>concat\<close>. A buffer is truthy even when it is
  empty, so only \<open>None\<close> fails the test \<open>if(packet)\<close>.\<close>

type_synonym 's transform = "nat \<Rightarrow> buffer \<Rightarrow> 's \<Rightarrow> (error + buffer option) \<times> 's"

function processRTCPMessage_loop ::
  "'s transform \<Rightarrow> buffer \<Rightarrow> nat \<Rightarrow> buffer list \<Rightarrow> 's \<Rightarrow> (error + buffer list) \<times> 's" where
  "processRTCPMessage_loop transform msg offset rtcpPackets s =
     (if offset + 4 \<le> length msg then
        (case readUInt8 msg (offset + 1) of
           Inl e \<Rightarrow> (Inl e, s)
         | Inr pt \<Rightarrow>
        (case readUInt16BE msg (offset + 2) of
           Inl e \<Rightarrow> (Inl e, s)
         | Inr w \<Rightarrow>
             if offset + 4 + w * 4 > length msg then (Inr rtcpPackets, s)
             else (case transform pt (slice msg offset (offset + 4 + w * 4)) s of
                     (Inl e, s') \<Rightarrow> (Inl e, s')
                   | (Inr packet, s') \<Rightarrow>
                       processRTCPMessage_loop transform msg (offset + 4 + w * 4)
                         (case packet of None \<Rightarrow> rtcpPackets | Some b \<Rightarrow> rtcpPackets @ [b]) s')))
      else (Inr rtcpPackets, s))"
  by pat_completeness auto
termination
  by (relation "measure (\<lambda>(transform, msg, offset, rtcpPackets, s). length msg - offset)") auto

definition processRTCPMessage :: "'s transform \<Rightarrow> buffer \<Rightarrow> 's \<Rightarrow> (error + buffer option) \<times> 's" where
  "processRTCPMessage transform msg s =
     (case processRTCPMessage_loop transform msg 0 [] s of
        (Inl e, s') \<Rightarrow> (Inl e, s')
      | (Inr rtcpPackets, s') \<Rightarrow>
          (Inr (if length rtcpPackets > 0 then Some (concat rtcpPackets) else None), s'))"

subsection \<open>The two RTCP relay directions\<close>

definition rtcpMessage_transform :: "RTPProxy transform" where
  "rtcpMessage_transform pt packet p =
     (if pt \<noteq> 200 \<or> length packet < 8 then (Inr (Some packet), p)
      else case (if incomingSSRC p = None
                 then (case readUInt32BE packet 4 of
                         Inl e \<Rightarrow> Inl e
                       | Inr v \<Rightarrow> Inr (p\<lparr>incomingSSRC := Some (int v)\<rparr>))
                 else Inr p) of
             Inl e \<Rightarrow> (Inl e, p)
           | Inr p1 \<Rightarrow>
               (case writeUInt32BE packet (outgoingSSRC p1) 4 of
                  Inl e \<Rightarrow> (Inl e, p1)
                | Inr packet1 \<Rightarrow> (Inr (Some packet1), p1)))"

definition rtcpMessage :: "RTPProxy \<Rightarrow> buffer \<Rightarrow> error option \<times> RTPProxy" where
  "rtcpMessage p msg =
     (case processRTCPMessage rtcpMessage_transform msg p of
        (Inl e, p') \<Rightarrow> (Some e, p')
      | (Inr None, p') \<Rightarrow> (None, p')
      | (Inr (Some processed), p') \<Rightarrow> sendOut p' processed)"

text \<open>In \<open>rtcpReply\<close> the value written is \<open>this.incomingSSRC!\<close>: the assertion is
  erased at run time, and the write converts its argument to a number.\<close>

definition rtcpReply_transform :: "RTPProxy transform" where
  "rtcpReply_transform pt packet p =
     (if pt \<noteq> 201 \<or> length packet < 12 then (Inr (Some packet), p)
      else case writeUInt32BE packet (ToNumber (incomingSSRC p)) 8 of
             Inl e \<Rightarrow> (Inl e, p)
           | Inr packet1 \<Rightarrow> (Inr (Some packet1), p))"

definition rtcpReply :: "RTPProxy \<Rightarrow> buffer \<Rightarrow> error option \<times> RTPProxy" where
  "rtcpReply p msg =
     (case processRTCPMessage rtcpReply_transform msg p of
        (Inl e, p') \<Rightarrow> (Some e, p')
      | (Inr None, p') \<Rightarrow> (None, p')
      | (Inr (Some processed), p') \<Rightarrow> sendOut p' processed)"

text \<open>The listeners that \<open>onBound\<close> attaches: a datagram arriving on the incoming RTP
  socket goes to \<open>rtpMessage\<close>, one on the incoming RTCP socket to \<open>rtcpMessage\<close>, one
  on the outgoing socket to \<open>rtcpReply\<close>. \<open>deliverAll\<close> handles datagrams one after
  the other, each from the state the previous one left, raised error or not.\<close>

datatype datagram = OnRTP buffer | OnRTCP buffer | OnReply buffer

fun deliver :: "RTPProxy \<Rightarrow> datagram \<Rightarrow> error option \<times> RTPProxy" where
  "deliver p (OnRTP msg) = rtpMessage p msg"
| "deliver p (OnRTCP msg) = rtcpMessage p msg"
| "deliver p (OnReply msg) = rtcpReply p msg"

fun deliverAll :: "RTPProxy \<Rightarrow> datagram list \<Rightarrow> RTPProxy" where
  "deliverAll p [] = p"
| "deliverAll p (d # ds) = deliverAll (snd (deliver p d)) ds"

subsection \<open>The compound decode in the words of the specification\<close>

text \<open>\<open>declared_words\<close> is the big-endian 16-bit word count at offsets 2 and 3.
  \<open>spec_subpackets\<close> walks the buffer: a sub-packet is \<open>4 + declared_words * 4\<close> bytes
  long; the walk stops when fewer than 4 bytes remain or the sub-packet would end beyond
  the buffer. \<open>spec_transformAll\<close> applies the transform to the sub-packets in order and
  keeps what it returns; \<open>spec_codec\<close> concatenates the kept sub-packets, and gives no
  output when none was kept.\<close>

definition declared_words :: "buffer \<Rightarrow> nat" where
  "declared_words b = unat (b ! 2) * 256 + unat (b ! 3)"

function spec_subpackets :: "buffer \<Rightarrow> buffer list" where
  "spec_subpackets msg =
     (if length msg < 4 \<or> length msg < 4 + declared_words msg * 4 then []
      else take (4 + declared_words msg * 4) msg
             # spec_subpackets (drop (4 + declared_words msg * 4) msg))"
  by pat_completeness auto
termination
  by (relation "measure length") auto

fun spec_transformAll ::
  "'s transform \<Rightarrow> buffer list \<Rightarrow> buffer list \<Rightarrow> 's \<Rightarrow> (error + buffer list) \<times> 's" where
  "spec_transformAll t [] kept s = (Inr kept, s)"
| "spec_transformAll t (pk # pks) kept s =
     (case t (unat (pk ! 1)) pk s of
        (Inl e, s') \<Rightarrow> (Inl e, s')
      | (Inr r, s') \<Rightarrow>
          spec_transformAll t pks (case r of None \<Rightarrow> kept | Some b \<Rightarrow> kept @ [b]) s')"

definition spec_codec :: "'s transform \<Rightarrow> buffer \<Rightarrow> 's \<Rightarrow> (error + buffer option) \<times> 's" where
  "spec_codec t msg s =
     (case spec_transformAll t (spec_subpackets msg) [] s of
        (Inl e, s') \<Rightarrow> (Inl e, s')
      | (Inr kept, s') \<Rightarrow> (Inr (if kept = [] then None else Some (concat kept)), s'))"

text \<open>A well-formed sub-packet is as long as its header declares; a remainder stops
  the walk when it has fewer than 4 bytes or declares more than it holds.\<close>

definition wellFormed :: "buffer \<Rightarrow> bool" where
  "wellFormed pk = (length pk = 4 + declared_words pk * 4)"

definition stopsWalk :: "buffer \<Rightarrow> bool" where
  "stopsWalk rest = (length rest < 4 \<or> length rest < 4 + declared_words rest * 4)"

subsection \<open>The relay directions in the words of the specification\<close>

text \<open>\<open>be32 v\<close> is the 32-bit value \<open>v\<close> as four bytes, most significant first, and
  \<open>u32be b off\<close> the value of the four bytes of \<open>b\<close> at \<open>off\<close> read that way.\<close>

definition be32 :: "int \<Rightarrow> buffer" where
  "be32 v = [word_of_int (v div 16777216), word_of_int (v div 65536),
             word_of_int (v div 256), word_of_int v]"

definition u32be :: "buffer \<Rightarrow> nat \<Rightarrow> nat" where
  "u32be b off = unat (b ! off) * 16777216 + unat (b ! (off + 1)) * 65536
                 + unat (b ! (off + 2)) * 256 + unat (b ! (off + 3))"

text \<open>Forward path: a Sender Report (type 200) of at least 8 bytes gets the outgoing SSRC
  in its SSRC field at offset 4; any other sub-packet passes unmodified. Reply path: a
  Receiver Report (type 201) of at least 12 bytes gets a value in the field at offset 8;
  any other sub-packet passes unmodified.\<close>

definition spec_forward :: "int \<Rightarrow> buffer \<Rightarrow> buffer" where
  "spec_forward ssrc pk =
     (if unat (pk ! 1) = 200 \<and> 8 \<le> length pk then take 4 pk @ be32 ssrc @ drop 8 pk else pk)"

definition spec_reply :: "int \<Rightarrow> buffer \<Rightarrow> buffer" where
  "spec_reply ssrc pk =
     (if unat (pk ! 1) = 201 \<and> 12 \<le> length pk then take 8 pk @ be32 ssrc @ drop 12 pk else pk)"

text \<open>The learned incoming SSRC is set if absent. \<open>spec_srSSRC\<close> is the SSRC a sub-packet
  offers on the forward path, \<open>spec_first\<close> the first value a list of offers holds, and
  \<open>spec_observedSSRC\<close> what a datagram offers: an RTP packet of at least 12 bytes the
  value at offset 4, an RTCP compound on the forward path that of its first Sender Report
  of at least 8 bytes, a reply nothing.\<close>

definition spec_learn :: "RTPProxy \<Rightarrow> nat option \<Rightarrow> RTPProxy" where
  "spec_learn p obs =
     (case incomingSSRC p of
        Some v \<Rightarrow> p
      | None \<Rightarrow> (case obs of None \<Rightarrow> p | Some v \<Rightarrow> p\<lparr>incomingSSRC := Some (int v)\<rparr>))"

definition spec_srSSRC :: "buffer \<Rightarrow> nat option" where
  "spec_srSSRC pk = (if unat (pk ! 1) = 200 \<and> 8 \<le> length pk then Some (u32be pk 4) else None)"

fun spec_first :: "nat option list \<Rightarrow> nat option" where
  "spec_first [] = None"
| "spec_first (None # xs) = spec_first xs"
| "spec_first (Some v # xs) = Some v"

fun spec_observedSSRC :: "datagram \<Rightarrow> nat option" where
  "spec_observedSSRC (OnRTP msg) = (if 12 \<le> length msg then Some (u32be msg 4) else None)"
| "spec_observedSSRC (OnRTCP msg) = spec_first (map spec_srSSRC (spec_subpackets msg))"
| "spec_observedSSRC (OnReply msg) = None"

subsection \<open>The adjacent pair allocator\<close>

text \<open>\<open>createSocketPair\<close> binds two fresh sockets at \<open>startingPort\<close> and
  \<open>startingPort + 1\<close> and waits for both outcomes; \<open>recheck\<close> acts only when both
  are known, so the order of the four events does not matter. The environment is the
  oracle \<open>bind\<close>: \<open>bind n q\<close> is the outcome of the bind that attempt \<open>n\<close> issues
  for port \<open>q\<close>, \<open>Some l\<close> when the socket ends up listening on local port \<open>l\<close> and
  \<open>None\<close> when it ends in an error. The call itself never raises, whatever the number.
  The retry may go on forever, so the function is partial: the value \<open>None\<close> stands
  for a promise that never resolves.\<close>

partial_function (option) createSocketPair_retry ::
  "(nat \<Rightarrow> int \<Rightarrow> int option) \<Rightarrow> nat \<Rightarrow> RTPProxy \<Rightarrow> (error + (sock \<times> sock) \<times> RTPProxy) option" where
  "createSocketPair_retry bind n p =
     (let socket1 = created p;
          socket2 = created p + 1;
          p1 = p\<lparr>created := created p + 2\<rparr>;
          listening1 = bind n (startingPort p1);
          listening2 = bind n (startingPort p1 + 1);
          p2 = p1\<lparr>bound := bound p1
                       @ (case listening1 of None \<Rightarrow> [] | Some l \<Rightarrow> [(socket1, l)])
                       @ (case listening2 of None \<Rightarrow> [] | Some l \<Rightarrow> [(socket2, l)])\<rparr>
      in if listening1 \<noteq> None \<and> listening2 \<noteq> None then Some (Inr ((socket1, socket2), p2))
         else
           let p3 = p2\<lparr>startingPort :=
                          (if startingPort p2 = 65534 then 10000 else startingPort p2 + 1)\<rparr>
           in (case socket_close socket1 p3 of
                 (Some e, p4) \<Rightarrow> Some (Inl e)
               | (None, p4) \<Rightarrow>
              (case socket_close socket2 p4 of
                 (Some e, p5) \<Rightarrow> Some (Inl e)
               | (None, p5) \<Rightarrow> createSocketPair_retry bind (n + 1) p5)))"

definition createSocketPair ::
  "(nat \<Rightarrow> int \<Rightarrow> int option) \<Rightarrow> RTPProxy \<Rightarrow> (error + (sock \<times> sock) \<times> RTPProxy) option" where
  "createSocketPair bind p = createSocketPair_retry bind 0 p"


text \<open>In the words of the specification: the candidate port after \<open>c\<close>, wrapping from
  65534 back to 10000, and the candidate of attempt \<open>m\<close> when the first one is \<open>c\<close>.
  \<open>bothBind\<close> says that both binds of attempt \<open>n\<close> at candidate \<open>c\<close> succeed, and
  \<open>firstSuccess\<close> that attempt \<open>m\<close> (counted from attempt \<open>n\<close>) is the first where they do.\<close>

definition nextCandidate :: "int \<Rightarrow> int" where
  "nextCandidate c = (if c = 65534 then 10000 else c + 1)"

definition candidate :: "int \<Rightarrow> nat \<Rightarrow> int" where
  "candidate c m = (nextCandidate ^^ m) c"






subsection \<open>Conditions and example instances used in the statements\<close>

text \<open>\<open>sendReady p k\<close>: the instance has a peer address and a valid peer port, and its
  outgoing socket is the open socket \<open>k\<close>; then \<open>sendOut\<close> hands its argument to
  \<open>send\<close> of that socket.\<close>

definition sendReady :: "RTPProxy \<Rightarrow> sock \<Rightarrow> bool" where
  "sendReady p k =
     (outgoingAddress p \<noteq> [] \<and> 0 < outgoingPort p \<and> outgoingPort p \<le> 65535
      \<and> outgoingSocket p = Some k \<and> k \<notin> set (closeCalls p))"

text \<open>\<open>uint32 v\<close>: the number is an unsigned 32-bit value, as an SSRC is.\<close>

definition uint32 :: "int \<Rightarrow> bool" where
  "uint32 v = (0 \<le> v \<and> v < 4294967296)"

text \<open>\<open>payloadType7 v\<close>: an unset payload type, or one of the 7-bit values 0 to 127.\<close>

definition payloadType7 :: "int option \<Rightarrow> bool" where
  "payloadType7 v = (case v of None \<Rightarrow> True | Some n \<Rightarrow> 0 \<le> n \<and> n \<le> 127)"

text \<open>An instance as the constructor and a completed \<open>setup\<close> leave it when the ports
  from 10000 on are free: sockets 0 and 1 are the incoming pair on 10000 and 10001; the
  allocation of the outgoing socket starts at the same cursor, so sockets 2 and 3 fail
  on 10000 and 10001 and are closed, and socket 4 is bound to 10002, where the cursor
  stays.\<close>

definition proxy0 :: RTPProxy where
  "proxy0 =
     \<lparr>startingPort = 10002, outgoingAddress = ''127.0.0.1'', outgoingPort = 5000,
      incomingPayloadType = 0, outgoingSSRC = 0xAAAAAAAA, incomingSSRC = None,
      outgoingPayloadType = None, disabled = False,
      incomingRTPSocket = Some 0, incomingRTCPSocket = Some 1, outgoingSocket = Some 4,
      created = 5, bound = [(0, 10000), (1, 10001), (4, 10002)], closeCalls = [2, 3],
      sent = []\<rparr>"

text \<open>An instance that matches payload type 96 and has no outgoing payload type yet, and an
  RTP packet of type 96 with the marker bit set (byte 1 is 0xE0).\<close>

definition proxyB :: RTPProxy where
  "proxyB = proxy0\<lparr>incomingPayloadType := 96\<rparr>"

definition msgB :: buffer where
  "msgB = [0x80, 0xE0, 0x00, 0x01, 0x00, 0x00, 0x00, 0x00, 0x11, 0x11, 0x11, 0x11]"

text \<open>\<open>learnedOk p\<close>: the learned incoming SSRC, if there is one, is a 32-bit value.\<close>

definition learnedOk :: "RTPProxy \<Rightarrow> bool" where
  "learnedOk p = (case incomingSSRC p of None \<Rightarrow> True | Some v \<Rightarrow> uint32 v)"

text \<open>Scenario A: incoming payload type 96, outgoing payload type 99.\<close>

definition proxyA :: RTPProxy where
  "proxyA = proxy0\<lparr>incomingPayloadType := 96, outgoingPayloadType := Some 99\<rparr>"

definition msgA :: buffer where
  "msgA = [0x80, 0x60, 0x00, 0x01, 0x00, 0x00, 0x00, 0x00, 0x11, 0x11, 0x11, 0x11]"

text \<open>A transform that keeps every sub-packet as it is, and a buffer for the codec:
  an 8-byte sub-packet of type 204 followed by six bytes whose header declares five
  words, more than the buffer holds.\<close>

definition keepAll :: "unit transform" where
  "keepAll pt packet s = (Inr (Some packet), s)"

definition msgT :: buffer where
  "msgT = [0x80, 0xCC, 0x00, 0x01, 0x01, 0x02, 0x03, 0x04,
           0x80, 0xC8, 0x00, 0x05, 0x09, 0x09]"



text \<open>Scenario E: a Sender Report of 6 words (28 bytes) with SSRC 0x22222222, followed by
  an 8-byte sub-packet of type 204.\<close>

definition srE :: buffer where
  "srE = [0x80, 0xC8, 0x00, 0x06, 0x22, 0x22, 0x22, 0x22,
          0x01, 0x02, 0x03, 0x04, 0x05, 0x06, 0x07, 0x08,
          0x09, 0x0A, 0x0B, 0x0C, 0x0D, 0x0E, 0x0F, 0x10,
          0x11, 0x12, 0x13, 0x14]"

definition appE :: buffer where
  "appE = [0x80, 0xCC, 0x00, 0x01, 0x41, 0x42, 0x43, 0x44]"

text \<open>A Receiver Report of 2 words (12 bytes) that reports on source 0x33333333.\<close>

definition rrR :: buffer where
  "rrR = [0x81, 0xC9, 0x00, 0x02, 0x00, 0x00, 0x00, 0x01, 0x33, 0x33, 0x33, 0x33]"

text \<open>A run of datagrams: an RTP packet too short to qualify, a reply, the compound of
  Scenario E, the RTP packet of Scenario A (bytes 4 to 7 are 0).\<close>

definition datagramsW :: "datagram list" where
  "datagramsW = [OnRTP [0x80, 0x60], OnReply rrR, OnRTCP (srE @ appE), OnRTP msgA]"

text \<open>An instance as the constructor leaves it, before \<open>setup\<close>; an environment in
  which port 10000 is taken and every other port is free (Scenario D); and one in which
  every port is free (Scenario C).\<close>

definition proxyNew :: RTPProxy where
  "proxyNew =
     \<lparr>startingPort = 10000, outgoingAddress = ''127.0.0.1'', outgoingPort = 5000,
      incomingPayloadType = 0, outgoingSSRC = 0xAAAAAAAA, incomingSSRC = None,
      outgoingPayloadType = None, disabled = False,
      incomingRTPSocket = None, incomingRTCPSocket = None, outgoingSocket = None,
      created = 0, bound = [], closeCalls = [], sent = []\<rparr>"


definition allPortsFree :: "nat \<Rightarrow> int \<Rightarrow> int option" where
  "allPortsFree n q = Some q"

section \<open>Properties\<close>

subsection \<open>Bytes, coercions and buffer writes\<close>

lemma ToInt32_id: "0 \<le> x \<Longrightarrow> x < 2147483648 \<Longrightarrow> ToInt32 x = x"
  by (simp add: ToInt32_def)

lemma uint8_bounds: "0 \<le> uint (w :: byte)" "uint (w :: byte) < 256"
  using uint_lt2p [of w] by simp_all

lemma ToInt32_byte: "ToInt32 (uint (w :: byte)) = uint w"
  using uint8_bounds [of w] by (intro ToInt32_id) simp_all

lemma js_and_byte:
  assumes "0 \<le> m" "m < 256"
  shows "js_and (int (unat (w :: byte))) m = uint (w AND word_of_int m)"
proof -
  have "int (unat w) = uint w" by (simp only: uint_nat)
  moreover have "ToInt32 m = m" using assms by (intro ToInt32_id) simp_all
  moreover have "uint (word_of_int m :: byte) = m"
    using assms by (simp add: uint_word_of_int_eq take_bit_int_eq_self)
  ultimately show ?thesis
    by (simp only: js_and_def ToInt32_byte uint_and)
qed

lemma js_or_byte:
  assumes "0 \<le> m" "m < 256"
  shows "js_or (uint (w :: byte)) m = uint (w OR word_of_int m)"
proof -
  have "ToInt32 m = m" using assms by (intro ToInt32_id) simp_all
  moreover have "uint (word_of_int m :: byte) = m"
    using assms by (simp add: uint_word_of_int_eq take_bit_int_eq_self)
  ultimately show ?thesis
    by (simp only: js_or_def ToInt32_byte uint_or)
qed

lemma byte_low7: "0 \<le> (opt::int) \<Longrightarrow> opt \<le> 127 \<Longrightarrow> (word_of_int opt :: byte) AND 0x7F = word_of_int opt"
proof -
  assume a: "0 \<le> opt" "opt \<le> 127"
  have m: "(0x7F :: byte) = mask 7" by (simp add: mask_eq_exp_minus_1)
  have "take_bit 7 opt = opt" using a by (simp add: take_bit_int_eq_self)
  then show ?thesis
    unfolding m by (simp flip: take_bit_eq_mask add: take_bit_of_int)
qed

lemma byte_high_of_low7:
  assumes "0 \<le> (opt::int)" "opt \<le> 127"
  shows "(word_of_int opt :: byte) AND 0x80 = 0"
proof -
  have "(word_of_int opt :: byte) AND 0x80 = (word_of_int opt AND 0x7F) AND 0x80"
    by (simp only: byte_low7 [OF assms])
  also have "\<dots> = word_of_int opt AND (0x7F AND 0x80)"
    by (simp only: and.assoc)
  also have "(0x7F :: byte) AND 0x80 = 0" by simp
  finally show ?thesis by simp
qed

lemma marker_or_pt:
  assumes "0 \<le> (opt::int)" "opt \<le> 127"
  shows "((w AND 0x80) OR word_of_int opt :: byte) AND 0x80 = w AND 0x80"
    and "((w AND 0x80) OR word_of_int opt :: byte) AND 0x7F = word_of_int opt"
proof -
  have z: "(w AND 0x80) AND 0x7F = 0"
  proof -
    have "(w AND 0x80) AND 0x7F = w AND (0x80 AND 0x7F)" by (simp only: and.assoc)
    then show ?thesis by simp
  qed
  have i: "(w AND 0x80) AND 0x80 = w AND 0x80"
    by (simp add: and.assoc)
  show "((w AND 0x80) OR word_of_int opt :: byte) AND 0x80 = w AND 0x80"
    by (simp only: bit.conj_disj_distrib2 i byte_high_of_low7 [OF assms]) simp
  show "((w AND 0x80) OR word_of_int opt :: byte) AND 0x7F = word_of_int opt"
    by (simp only: bit.conj_disj_distrib2 z byte_low7 [OF assms]) simp
qed

lemma rtp_mpt:
  assumes "0 \<le> (opt::int)" "opt \<le> 127"
  shows "js_or (js_and (int (unat (w :: byte))) 0x80) opt = uint ((w AND 0x80) OR word_of_int opt)"
proof -
  have "js_and (int (unat w)) 0x80 = uint (w AND 0x80)"
    using js_and_byte [of "0x80" w] by simp
  then show ?thesis using js_or_byte [of opt "w AND 0x80"] assms by simp
qed

lemma unat_byte_of_int: "0 \<le> k \<Longrightarrow> unat (word_of_int k :: byte) = nat k mod 256"
proof -
  assume "0 \<le> k"
  then have "k = int (nat k)" by simp
  then have "word_of_int k = (of_nat (nat k) :: byte)" by (metis of_int_of_nat_eq)
  then show ?thesis by (simp add: unat_of_nat)
qed

lemma unat_byte_of_int_div:
  "0 \<le> v \<Longrightarrow> unat (word_of_int (v div int c) :: byte) = (nat v div c) mod 256"
proof -
  assume a: "0 \<le> v"
  then have "0 \<le> v div int c" by (simp add: pos_imp_zdiv_nonneg_iff div_int_pos_iff)
  then have "unat (word_of_int (v div int c) :: byte) = nat (v div int c) mod 256"
    by (rule unat_byte_of_int)
  also have "nat (v div int c) = nat v div c"
    using a by (simp add: nat_div_distrib)
  finally show ?thesis .
qed

lemma be32_recompose:
  assumes "(n::nat) < 4294967296"
  shows "(n div 16777216) mod 256 * 16777216 + (n div 65536) mod 256 * 65536
         + (n div 256) mod 256 * 256 + n mod 256 = n"
proof -
  define a where "a = n div 256"
  define b where "b = a div 256"
  define c where "c = b div 256"
  have n: "n = a * 256 + n mod 256" by (simp add: a_def)
  have a: "a = b * 256 + a mod 256" by (simp add: b_def)
  have b: "b = c * 256 + b mod 256" by (simp add: c_def)
  have d2: "n div 65536 = b" by (simp add: a_def b_def div_mult2_eq)
  have d3: "n div 16777216 = c" by (simp add: a_def b_def c_def div_mult2_eq)
  have "c < 256" using assms unfolding d3 [symmetric] by simp
  then have c: "c mod 256 = c" by simp
  have "c * 16777216 + b mod 256 * 65536 + a mod 256 * 256 + n mod 256 = n"
    using n a b by linarith
  then show ?thesis
    by (simp only: d2 d3 c a_def [symmetric])
qed

lemma writeUInt32BE_ok:
  assumes "0 \<le> v" "v < 4294967296" "offset + 4 \<le> length buf"
  shows "writeUInt32BE buf v offset =
           Inr (buf[offset + 3 := word_of_int v,
                    offset + 2 := word_of_int (v div 256),
                    offset + 1 := word_of_int (v div 65536),
                    offset := word_of_int (v div 16777216)])"
  using assms by (simp add: writeUInt32BE_def)

lemma write_then_read32:
  assumes "0 \<le> v" "v < 4294967296" "offset + 4 \<le> length buf"
  shows "\<exists>out. writeUInt32BE buf v offset = Inr out \<and> length out = length buf
           \<and> readUInt32BE out offset = Inr (nat v)
           \<and> (\<forall>i. i < offset \<or> offset + 4 \<le> i \<longrightarrow> out ! i = buf ! i)"
proof -
  define out where "out = buf[offset + 3 := word_of_int v,
                    offset + 2 := word_of_int (v div 256),
                    offset + 1 := word_of_int (v div 65536),
                    offset := word_of_int (v div 16777216)]"
  have w: "writeUInt32BE buf v offset = Inr out"
    unfolding out_def by (rule writeUInt32BE_ok [OF assms])
  have len: "length out = length buf" by (simp add: out_def)
  have n: "nat v < 4294967296" using assms by simp
  have b: "unat (out ! offset) = (nat v div 16777216) mod 256"
       "unat (out ! (offset + 1)) = (nat v div 65536) mod 256"
       "unat (out ! (offset + 2)) = (nat v div 256) mod 256"
       "unat (out ! (offset + 3)) = nat v mod 256"
    using unat_byte_of_int_div [OF assms(1), of 16777216]
          unat_byte_of_int_div [OF assms(1), of 65536]
          unat_byte_of_int_div [OF assms(1), of 256]
          unat_byte_of_int [OF assms(1)] assms(3)
    by (simp_all add: out_def nth_list_update del: of_int_numeral)
  have r: "readUInt32BE out offset = Inr (nat v)"
    using assms(3) len be32_recompose [OF n]
    by (simp only: readUInt32BE_def b if_True)
  have o: "\<forall>i. i < offset \<or> offset + 4 \<le> i \<longrightarrow> out ! i = buf ! i"
    by (auto simp: out_def nth_list_update)
  from w len r o show ?thesis by blast
qed

subsection \<open>The RTP rewrite path: properties\<close>

lemma sendOut_short_circuit:
  "outgoingAddress p = [] \<or> outgoingPort p = 0 \<Longrightarrow> sendOut p msg = (None, p)"
  by (simp add: sendOut_def)

lemma sendOut_ready:
  "sendReady p k \<Longrightarrow>
   sendOut p msg = (None, p\<lparr>sent := sent p @ [(k, msg, outgoingPort p, outgoingAddress p)]\<rparr>)"
  by (auto simp: sendReady_def sendOut_def socket_send_def)

lemma sendReady_incomingSSRC [simp]: "sendReady (p\<lparr>incomingSSRC := v\<rparr>) k = sendReady p k"
  by (simp add: sendReady_def)

lemma rtpMessage_short: "length msg < 12 \<Longrightarrow> rtpMessage p msg = sendOut p msg"
  by (simp add: rtpMessage_def)

lemma writeUInt8_ok:
  "offset < length buf \<Longrightarrow> writeUInt8 buf (uint (w :: byte)) offset = Inr (buf[offset := w])"
  using uint8_bounds [of w] by (simp add: writeUInt8_def)

text \<open>The header byte 1 after the payload-type step.\<close>

lemma rtp_byte1_step:
  assumes "12 \<le> length msg"
    and "uint (msg ! 1 AND 0x7F) = incomingPayloadType p \<Longrightarrow>
           0 \<le> ToNumber (outgoingPayloadType p) \<and> ToNumber (outgoingPayloadType p) \<le> 127"
  shows "(if js_and (int (unat (msg ! 1))) 0x7F = incomingPayloadType p
          then writeUInt8 msg (js_or (js_and (int (unat (msg ! 1))) 0x80) (ToNumber (outgoingPayloadType p))) 1
          else Inr msg)
         = Inr (if uint (msg ! 1 AND 0x7F) = incomingPayloadType p
                then msg[1 := (msg ! 1 AND 0x80) OR word_of_int (ToNumber (outgoingPayloadType p))]
                else msg)"
proof -
  have pt: "js_and (int (unat (msg ! 1))) 0x7F = uint (msg ! 1 AND 0x7F)"
    using js_and_byte [of "0x7F" "msg ! 1"] by simp
  show ?thesis
  proof (cases "uint (msg ! 1 AND 0x7F) = incomingPayloadType p")
    case True
    then have r: "0 \<le> ToNumber (outgoingPayloadType p)" "ToNumber (outgoingPayloadType p) \<le> 127"
      using assms(2) by simp_all
    have "1 < length msg" using assms(1) by simp
    then show ?thesis
      using True by (simp only: pt rtp_mpt [OF r] writeUInt8_ok) simp
  next
    case False
    then show ?thesis by (simp only: pt if_False)
  qed
qed

lemma rtpMessage_long:
  assumes "12 \<le> length msg" "sendReady p k" "uint32 (outgoingSSRC p)"
    and "uint (msg ! 1 AND 0x7F) = incomingPayloadType p \<Longrightarrow>
           0 \<le> ToNumber (outgoingPayloadType p) \<and> ToNumber (outgoingPayloadType p) \<le> 127"
  shows "\<exists>out v. rtpMessage p msg =
            (None, (if incomingSSRC p = None then p\<lparr>incomingSSRC := Some (int v)\<rparr> else p)
                     \<lparr>sent := sent p @ [(k, out, outgoingPort p, outgoingAddress p)]\<rparr>)
          \<and> readUInt32BE msg 4 = Inr v
          \<and> length out = length msg
          \<and> out ! 1 = (if uint (msg ! 1 AND 0x7F) = incomingPayloadType p
                       then (msg ! 1 AND 0x80) OR word_of_int (ToNumber (outgoingPayloadType p))
                       else msg ! 1)
          \<and> readUInt32BE out 8 = Inr (nat (outgoingSSRC p))
          \<and> (\<forall>i. i \<noteq> 1 \<and> (i < 8 \<or> 12 \<le> i) \<longrightarrow> out ! i = msg ! i)"
proof -
  define msg1 where "msg1 = (if uint (msg ! 1 AND 0x7F) = incomingPayloadType p
                then msg[1 := (msg ! 1 AND 0x80) OR word_of_int (ToNumber (outgoingPayloadType p))]
                else msg)"
  define v where "v = unat (msg ! 4) * 16777216 + unat (msg ! 5) * 65536
                + unat (msg ! 6) * 256 + unat (msg ! 7)"
  define p1 where "p1 = (if incomingSSRC p = None then p\<lparr>incomingSSRC := Some (int v)\<rparr> else p)"
  have l1: "length msg1 = length msg" by (simp add: msg1_def)
  have step1: "(if js_and (int (unat (msg ! 1))) 0x7F = incomingPayloadType p
          then writeUInt8 msg (js_or (js_and (int (unat (msg ! 1))) 0x80) (ToNumber (outgoingPayloadType p))) 1
          else Inr msg) = Inr msg1"
    unfolding msg1_def by (rule rtp_byte1_step [OF assms(1) assms(4)])
  have rd: "readUInt32BE msg 4 = Inr v" using assms(1) by (simp add: readUInt32BE_def v_def)
  have rd1: "readUInt32BE msg1 4 = Inr v" using assms(1) by (simp add: readUInt32BE_def v_def msg1_def)
  have s1: "outgoingSSRC p1 = outgoingSSRC p" "sendReady p1 k" "sent p1 = sent p"
           "outgoingPort p1 = outgoingPort p" "outgoingAddress p1 = outgoingAddress p"
    using assms(2) by (simp_all add: p1_def)
  obtain out where w: "writeUInt32BE msg1 (outgoingSSRC p) 8 = Inr out" "length out = length msg1"
      "readUInt32BE out 8 = Inr (nat (outgoingSSRC p))"
      "\<forall>i. i < 8 \<or> 8 + 4 \<le> i \<longrightarrow> out ! i = msg1 ! i"
    using write_then_read32 [of "outgoingSSRC p" 8 msg1] assms(1,3) l1
    by (auto simp: uint32_def)
  have r8: "readUInt8 msg 1 = Inr (unat (msg ! 1))"
    using assms(1) by (simp add: readUInt8_def)
  have nl: "\<not> length msg < 12" using assms(1) by simp
  have cap: "(if incomingSSRC p = None
              then (case readUInt32BE msg1 4 of
                      Inl e \<Rightarrow> Inl e
                    | Inr v \<Rightarrow> Inr (p\<lparr>incomingSSRC := Some (int v)\<rparr>))
              else Inr p) = Inr p1"
    by (simp add: rd1 p1_def)
  have w1: "writeUInt32BE msg1 (outgoingSSRC p1) 8 = Inr out"
    using w(1) s1(1) by simp
  have "rtpMessage p msg = sendOut p1 out"
    by (simp only: rtpMessage_def nl if_False r8 sum.case Let_def step1 cap w1)
  then have res: "rtpMessage p msg = (None, p1\<lparr>sent := sent p @ [(k, out, outgoingPort p, outgoingAddress p)]\<rparr>)"
    using sendOut_ready [OF s1(2), of out] s1 by simp
  have b1: "out ! 1 = msg1 ! 1" using w(4) by simp
  have b1': "msg1 ! 1 = (if uint (msg ! 1 AND 0x7F) = incomingPayloadType p
                       then (msg ! 1 AND 0x80) OR word_of_int (ToNumber (outgoingPayloadType p))
                       else msg ! 1)"
    using assms(1) by (simp add: msg1_def)
  have oth: "\<forall>i. i \<noteq> 1 \<and> (i < 8 \<or> 12 \<le> i) \<longrightarrow> out ! i = msg ! i"
    using w(4) by (auto simp: msg1_def)
  show ?thesis
    using res rd w(2) l1 b1 b1' w(3) oth unfolding p1_def by metis
qed

text \<open>
  Claim C7. An RTP packet shorter than 12 bytes is handed to \<open>sendOut\<close> as it is, and
  nothing else happens: the instance changes only by the datagram sent, which is the
  input byte for byte; there is no payload-type rewrite, the learned SSRC is neither
  captured nor overwritten, and no error is raised.
\<close>

theorem rtpMessage_short_passthrough:
  assumes "length msg < 12" "sendReady p k"
  shows "rtpMessage p msg = sendOut p msg
       \<and> rtpMessage p msg =
           (None, p\<lparr>sent := sent p @ [(k, msg, outgoingPort p, outgoingAddress p)]\<rparr>)"
  using assms by (simp add: rtpMessage_short sendOut_ready)

theorem rtpMessage_short_passthrough_witness:
  "length [0x80, 0x60, 0x00, 0x01 :: byte] < 12 \<and> sendReady proxy0 4
   \<and> rtpMessage proxy0 [0x80, 0x60, 0x00, 0x01] =
        (None, proxy0\<lparr>sent := [(4, [0x80, 0x60, 0x00, 0x01], 5000, ''127.0.0.1'')]\<rparr>)"
proof -
  have h1: "length [0x80, 0x60, 0x00, 0x01 :: byte] < 12" by simp
  have h2: "sendReady proxy0 4" by (simp add: sendReady_def proxy0_def)
  have c: "sent proxy0 = []" "outgoingPort proxy0 = 5000" "outgoingAddress proxy0 = ''127.0.0.1''"
    by (simp_all add: proxy0_def)
  note t = rtpMessage_short_passthrough [OF h1 h2, THEN conjunct2, unfolded c append_Nil]
  show ?thesis
    by (intro conjI h1 h2 t)
qed

text \<open>
  Claim C1. For an RTP packet of at least 12 bytes, with a 32-bit outgoing SSRC and an
  outgoing payload type that is unset or a 7-bit value: one datagram \<open>out\<close> is sent to
  the peer without error; if the low 7 bits of byte 1 equal the incoming payload type and
  an outgoing payload type \<open>opt\<close> is configured, byte 1 of \<open>out\<close> keeps the marker bit
  0x80 of the input and its low 7 bits are \<open>opt\<close>; in every case bytes 8 to 11 of \<open>out\<close>
  are the outgoing SSRC in big-endian order, and every byte other than byte 1 and bytes
  8 to 11 is the input's.
\<close>

theorem rtpMessage_rewrite:
  assumes "12 \<le> length msg" "sendReady p k" "uint32 (outgoingSSRC p)"
    and "payloadType7 (outgoingPayloadType p)"
  shows "\<exists>out. fst (rtpMessage p msg) = None
          \<and> sent (snd (rtpMessage p msg)) = sent p @ [(k, out, outgoingPort p, outgoingAddress p)]
          \<and> length out = length msg
          \<and> (\<forall>opt. uint (msg ! 1 AND 0x7F) = incomingPayloadType p \<and> outgoingPayloadType p = Some opt
                \<longrightarrow> out ! 1 AND 0x80 = msg ! 1 AND 0x80 \<and> uint (out ! 1 AND 0x7F) = opt)
          \<and> readUInt32BE out 8 = Inr (nat (outgoingSSRC p))
          \<and> (\<forall>i. i \<noteq> 1 \<and> (i < 8 \<or> 12 \<le> i) \<longrightarrow> out ! i = msg ! i)"
proof -
  have r: "0 \<le> ToNumber (outgoingPayloadType p) \<and> ToNumber (outgoingPayloadType p) \<le> 127"
    using assms(4) by (simp add: payloadType7_def ToNumber_def split: option.splits)
  obtain out v where o: "rtpMessage p msg =
            (None, (if incomingSSRC p = None then p\<lparr>incomingSSRC := Some (int v)\<rparr> else p)
                     \<lparr>sent := sent p @ [(k, out, outgoingPort p, outgoingAddress p)]\<rparr>)"
      "length out = length msg"
      "out ! 1 = (if uint (msg ! 1 AND 0x7F) = incomingPayloadType p
                  then (msg ! 1 AND 0x80) OR word_of_int (ToNumber (outgoingPayloadType p))
                  else msg ! 1)"
      "readUInt32BE out 8 = Inr (nat (outgoingSSRC p))"
      "\<forall>i. i \<noteq> 1 \<and> (i < 8 \<or> 12 \<le> i) \<longrightarrow> out ! i = msg ! i"
    using rtpMessage_long [OF assms(1,2,3) r] by blast
  have pt: "out ! 1 AND 0x80 = msg ! 1 AND 0x80 \<and> uint (out ! 1 AND 0x7F) = opt"
    if m: "uint (msg ! 1 AND 0x7F) = incomingPayloadType p" and s: "outgoingPayloadType p = Some opt"
    for opt
  proof -
    have b: "0 \<le> opt" "opt \<le> 127" using r s by (simp_all add: ToNumber_def)
    have e: "out ! 1 = (msg ! 1 AND 0x80) OR word_of_int opt"
      using o(3) m s by (simp add: ToNumber_def)
    have "uint (word_of_int opt :: byte) = opt"
      using b by (simp add: uint_word_of_int_eq take_bit_int_eq_self)
    then show ?thesis
      by (simp only: e marker_or_pt [OF b])
  qed
  have f: "fst (rtpMessage p msg) = None"
    "sent (snd (rtpMessage p msg)) = sent p @ [(k, out, outgoingPort p, outgoingAddress p)]"
    by (simp_all add: o(1))
  from f o(2,4,5) pt show ?thesis by blast
qed

theorem rtpMessage_rewrite_witness:
  "12 \<le> length msgA \<and> sendReady proxyA 4 \<and> uint32 (outgoingSSRC proxyA)
   \<and> payloadType7 (outgoingPayloadType proxyA)
   \<and> (\<exists>out. fst (rtpMessage proxyA msgA) = None
          \<and> sent (snd (rtpMessage proxyA msgA)) = [(4, out, 5000, ''127.0.0.1'')]
          \<and> length out = 12
          \<and> (\<forall>opt. uint (msgA ! 1 AND 0x7F) = 96 \<and> Some 99 = Some opt
                \<longrightarrow> out ! 1 AND 0x80 = msgA ! 1 AND 0x80 \<and> uint (out ! 1 AND 0x7F) = opt)
          \<and> readUInt32BE out 8 = Inr 0xAAAAAAAA
          \<and> (\<forall>i. i \<noteq> 1 \<and> (i < 8 \<or> 12 \<le> i) \<longrightarrow> out ! i = msgA ! i))"
proof -
  have h1: "12 \<le> length msgA" by (simp add: msgA_def)
  have h2: "sendReady proxyA 4" by (simp add: sendReady_def proxyA_def proxy0_def)
  have h3: "uint32 (outgoingSSRC proxyA)" by (simp add: uint32_def proxyA_def proxy0_def)
  have h4: "payloadType7 (outgoingPayloadType proxyA)"
    by (simp add: payloadType7_def proxyA_def proxy0_def)
  have c: "length msgA = 12" "incomingPayloadType proxyA = 96" "outgoingPayloadType proxyA = Some 99"
    "sent proxyA = []" "outgoingPort proxyA = 5000" "outgoingAddress proxyA = ''127.0.0.1''"
    "nat (outgoingSSRC proxyA) = 0xAAAAAAAA"
    by (simp_all add: msgA_def proxyA_def proxy0_def)
  note t = rtpMessage_rewrite [OF h1 h2 h3 h4, unfolded c append_Nil]
  show ?thesis
    by (intro conjI h1 h2 h3 h4 t)
qed

text \<open>Scenario A, evaluated: byte 1 becomes 0x63 and bytes 8 to 11 become 0xAAAAAAAA.\<close>

lemma scenario_A:
  "rtpMessage proxyA msgA =
     (None, proxyA\<lparr>incomingSSRC := Some 0,
                   sent := [(4, [0x80, 0x63, 0x00, 0x01, 0x00, 0x00, 0x00, 0x00, 0xAA, 0xAA, 0xAA, 0xAA],
                             5000, ''127.0.0.1'')]\<rparr>)"
  by (simp add: rtpMessage_def proxyA_def proxy0_def msgA_def readUInt8_def readUInt32BE_def
      writeUInt8_def writeUInt32BE_def js_and_def js_or_def ToInt32_def ToNumber_def
      sendOut_def socket_send_def)

text \<open>
  Claim C10. For an RTP packet of at least 12 bytes whose low 7 bits of byte 1 equal the
  incoming payload type, while the outgoing payload type is still \<open>null\<close>: the rewrite
  happens all the same. Byte 1 of the datagram sent is the marker bit of the input alone
  (its 7 payload-type bits are 0), the packet is sent to the peer, and no error is raised.
\<close>

theorem rtpMessage_null_outgoing_type:
  assumes "12 \<le> length msg" "sendReady p k" "uint32 (outgoingSSRC p)"
    and "uint (msg ! 1 AND 0x7F) = incomingPayloadType p"
    and "outgoingPayloadType p = None"
  shows "\<exists>out. fst (rtpMessage p msg) = None
          \<and> sent (snd (rtpMessage p msg)) = sent p @ [(k, out, outgoingPort p, outgoingAddress p)]
          \<and> length out = length msg
          \<and> out ! 1 = msg ! 1 AND 0x80
          \<and> out ! 1 AND 0x7F = 0
          \<and> readUInt32BE out 8 = Inr (nat (outgoingSSRC p))"
proof -
  have r: "0 \<le> ToNumber (outgoingPayloadType p) \<and> ToNumber (outgoingPayloadType p) \<le> 127"
    using assms(5) by (simp add: ToNumber_def)
  obtain out v where o: "rtpMessage p msg =
            (None, (if incomingSSRC p = None then p\<lparr>incomingSSRC := Some (int v)\<rparr> else p)
                     \<lparr>sent := sent p @ [(k, out, outgoingPort p, outgoingAddress p)]\<rparr>)"
      "length out = length msg"
      "out ! 1 = (if uint (msg ! 1 AND 0x7F) = incomingPayloadType p
                  then (msg ! 1 AND 0x80) OR word_of_int (ToNumber (outgoingPayloadType p))
                  else msg ! 1)"
      "readUInt32BE out 8 = Inr (nat (outgoingSSRC p))"
    using rtpMessage_long [OF assms(1,2,3) r] by blast
  have e: "out ! 1 = msg ! 1 AND 0x80"
    using o(3) assms(4,5) by (simp add: ToNumber_def)
  have z: "out ! 1 AND 0x7F = 0"
  proof -
    have "(msg ! 1 AND 0x80) AND 0x7F = msg ! 1 AND (0x80 AND 0x7F)" by (simp only: and.assoc)
    also have "(0x80 :: byte) AND 0x7F = 0" by simp
    finally show ?thesis by (simp only: e) simp
  qed
  have f: "fst (rtpMessage p msg) = None"
    "sent (snd (rtpMessage p msg)) = sent p @ [(k, out, outgoingPort p, outgoingAddress p)]"
    by (simp_all add: o(1))
  from f o(2,4) e z show ?thesis by blast
qed

theorem rtpMessage_null_outgoing_type_witness:
  "12 \<le> length msgB \<and> sendReady proxyB 4 \<and> uint32 (outgoingSSRC proxyB)
   \<and> uint (msgB ! 1 AND 0x7F) = incomingPayloadType proxyB
   \<and> outgoingPayloadType proxyB = None
   \<and> msgB ! 1 = 0xE0
   \<and> (\<exists>out. fst (rtpMessage proxyB msgB) = None
          \<and> sent (snd (rtpMessage proxyB msgB)) = [(4, out, 5000, ''127.0.0.1'')]
          \<and> length out = 12
          \<and> out ! 1 = 0x80
          \<and> out ! 1 AND 0x7F = 0
          \<and> readUInt32BE out 8 = Inr 0xAAAAAAAA)"
proof -
  have h1: "12 \<le> length msgB" by (simp add: msgB_def)
  have h2: "sendReady proxyB 4" by (simp add: sendReady_def proxyB_def proxy0_def)
  have h3: "uint32 (outgoingSSRC proxyB)" by (simp add: uint32_def proxyB_def proxy0_def)
  have h4: "uint (msgB ! 1 AND 0x7F) = incomingPayloadType proxyB"
    by (simp add: msgB_def proxyB_def proxy0_def)
  have h5: "outgoingPayloadType proxyB = None" by (simp add: proxyB_def proxy0_def)
  have b: "msgB ! 1 = 0xE0" by (simp add: msgB_def)
  have c: "length msgB = 12" "msgB ! 1 AND 0x80 = 0x80"
    "sent proxyB = []" "outgoingPort proxyB = 5000" "outgoingAddress proxyB = ''127.0.0.1''"
    "nat (outgoingSSRC proxyB) = 0xAAAAAAAA"
    by (simp_all add: msgB_def proxyB_def proxy0_def)
  note t = rtpMessage_null_outgoing_type [OF h1 h2 h3 h4 h5, unfolded c append_Nil]
  show ?thesis
    by (intro conjI h1 h2 h3 h4 h5 b t)
qed

subsection \<open>The compound codec refines the decode of the specification\<close>

declare processRTCPMessage_loop.simps [simp del]
declare spec_subpackets.simps [simp del]

lemma loop_stop_short:
  "\<not> offset + 4 \<le> length msg \<Longrightarrow>
   processRTCPMessage_loop t msg offset acc s = (Inr acc, s)"
  by (subst processRTCPMessage_loop.simps) simp

lemma loop_header_reads:
  assumes "offset + 4 \<le> length msg"
  shows "readUInt8 msg (offset + 1) = Inr (unat (drop offset msg ! 1))"
    and "readUInt16BE msg (offset + 2) = Inr (declared_words (drop offset msg))"
proof -
  have o: "offset \<le> length msg" using assms by simp
  have e: "offset + 3 = offset + 2 + 1" by simp
  have n: "drop offset msg ! 1 = msg ! (offset + 1)" "drop offset msg ! 2 = msg ! (offset + 2)"
    "drop offset msg ! 3 = msg ! (offset + 2 + 1)"
    by (simp_all only: nth_drop [OF o] e)
  have l: "offset + 1 + 1 \<le> length msg" "offset + 2 + 2 \<le> length msg"
    using assms by simp_all
  show "readUInt8 msg (offset + 1) = Inr (unat (drop offset msg ! 1))"
    by (simp only: readUInt8_def l if_True n)
  show "readUInt16BE msg (offset + 2) = Inr (declared_words (drop offset msg))"
    by (simp only: readUInt16BE_def declared_words_def l if_True n)
qed

lemma loop_stop_overrun:
  assumes "offset + 4 \<le> length msg"
    and "length msg < offset + (4 + declared_words (drop offset msg) * 4)"
  shows "processRTCPMessage_loop t msg offset acc s = (Inr acc, s)"
proof -
  have a: "length msg < offset + 4 + declared_words (drop offset msg) * 4"
    using assms(2) by (simp add: add.assoc)
  show ?thesis
    by (subst processRTCPMessage_loop.simps)
       (simp only: assms(1) a loop_header_reads [OF assms(1)] if_True sum.case)
qed

lemma loop_step:
  assumes "offset + 4 \<le> length msg"
    and "\<not> length msg < offset + (4 + declared_words (drop offset msg) * 4)"
  shows "processRTCPMessage_loop t msg offset acc s =
           (case t (unat (drop offset msg ! 1))
                   (take (4 + declared_words (drop offset msg) * 4) (drop offset msg)) s of
              (Inl e, s') \<Rightarrow> (Inl e, s')
            | (Inr packet, s') \<Rightarrow>
                processRTCPMessage_loop t msg (offset + (4 + declared_words (drop offset msg) * 4))
                  (case packet of None \<Rightarrow> acc | Some b \<Rightarrow> acc @ [b]) s')"
proof -
  have a: "\<not> length msg < offset + 4 + declared_words (drop offset msg) * 4"
    using assms(2) by (simp add: add.assoc)
  have sl: "slice msg offset (offset + 4 + declared_words (drop offset msg) * 4)
            = take (4 + declared_words (drop offset msg) * 4) (drop offset msg)"
    by (simp add: slice_def add.assoc)
  have r: "offset + 4 + declared_words (drop offset msg) * 4
           = offset + (4 + declared_words (drop offset msg) * 4)"
    by simp
  have "processRTCPMessage_loop t msg offset acc s =
           (case t (unat (drop offset msg ! 1))
                   (take (4 + declared_words (drop offset msg) * 4) (drop offset msg)) s of
              (Inl e, s') \<Rightarrow> (Inl e, s')
            | (Inr packet, s') \<Rightarrow>
                processRTCPMessage_loop t msg (offset + 4 + declared_words (drop offset msg) * 4)
                  (case packet of None \<Rightarrow> acc | Some b \<Rightarrow> acc @ [b]) s')"
    by (subst processRTCPMessage_loop.simps)
       (simp only: assms(1) a loop_header_reads [OF assms(1)] if_True if_False sum.case sl)
  then show ?thesis by (simp only: r)
qed

lemma spec_subpackets_stop:
  "length d < 4 \<or> length d < 4 + declared_words d * 4 \<Longrightarrow> spec_subpackets d = []"
  by (subst spec_subpackets.simps) simp

lemma spec_subpackets_step:
  "\<not> length d < 4 \<Longrightarrow> \<not> length d < 4 + declared_words d * 4 \<Longrightarrow>
   spec_subpackets d = take (4 + declared_words d * 4) d
                         # spec_subpackets (drop (4 + declared_words d * 4) d)"
  by (subst spec_subpackets.simps) simp

lemma loop_refines:
  "offset \<le> length msg \<Longrightarrow>
   processRTCPMessage_loop t msg offset acc s
     = spec_transformAll t (spec_subpackets (drop offset msg)) acc s"
proof (induction "length msg - offset" arbitrary: offset acc s rule: less_induct)
  case less
  define d where "d = drop offset msg"
  define n where "n = 4 + declared_words d * 4"
  have ld: "length d = length msg - offset" by (simp add: d_def)
  show ?case
  proof (cases "offset + 4 \<le> length msg")
    case False
    then have "length d < 4" using ld by simp
    then have "spec_subpackets d = []" by (simp add: spec_subpackets_stop)
    then show ?thesis using False by (simp add: loop_stop_short d_def)
  next
    case True
    show ?thesis
    proof (cases "length msg < offset + n")
      case over: True
      then have "length d < 4 + declared_words d * 4" using ld by (simp add: n_def)
      then have "spec_subpackets d = []" by (simp add: spec_subpackets_stop)
      moreover have "processRTCPMessage_loop t msg offset acc s = (Inr acc, s)"
        using over by (intro loop_stop_overrun [OF True]) (simp add: n_def d_def)
      ultimately show ?thesis by (simp add: d_def)
    next
      case fits: False
      have a: "\<not> length d < 4" "\<not> length d < 4 + declared_words d * 4"
        using True fits ld by (simp_all add: n_def)
      have dd: "drop n d = drop (offset + n) msg" by (simp add: d_def add.commute)
      have sp: "spec_subpackets d = take n d # spec_subpackets (drop (offset + n) msg)"
        using spec_subpackets_step [OF a] by (simp only: n_def [symmetric] dd)
      have pt: "take n d ! 1 = d ! 1" by (simp add: n_def)
      have f: "\<not> length msg < offset + (4 + declared_words (drop offset msg) * 4)"
        using fits by (simp add: n_def d_def)
      have st: "processRTCPMessage_loop t msg offset acc s =
           (case t (unat (d ! 1)) (take n d) s of
              (Inl e, s') \<Rightarrow> (Inl e, s')
            | (Inr packet, s') \<Rightarrow>
                processRTCPMessage_loop t msg (offset + n)
                  (case packet of None \<Rightarrow> acc | Some b \<Rightarrow> acc @ [b]) s')"
        using loop_step [OF True f, of t acc s] by (simp only: d_def [symmetric] n_def [symmetric])
      have ih: "processRTCPMessage_loop t msg (offset + n) acc' s'
                  = spec_transformAll t (spec_subpackets (drop (offset + n) msg)) acc' s'"
        for acc' s'
        using fits True by (intro less.hyps) (simp_all add: n_def)
      show ?thesis
        unfolding d_def [symmetric] sp st
        by (simp only: spec_transformAll.simps pt ih)
    qed
  qed
qed

lemma processRTCPMessage_refines:
  "processRTCPMessage t msg s = spec_codec t msg s"
  by (simp add: processRTCPMessage_def spec_codec_def loop_refines split: prod.splits sum.splits)

lemma declared_words_take: "4 \<le> n \<Longrightarrow> declared_words (take n b) = declared_words b"
  by (simp add: declared_words_def)

lemma declared_words_append: "4 \<le> length a \<Longrightarrow> declared_words (a @ b) = declared_words a"
  by (simp add: declared_words_def nth_append)

lemma spec_subpackets_wellFormed: "pk \<in> set (spec_subpackets msg) \<Longrightarrow> wellFormed pk"
proof (induction msg rule: spec_subpackets.induct)
  case (1 msg)
  show ?case
  proof (cases "length msg < 4 \<or> length msg < 4 + declared_words msg * 4")
    case True
    then have "spec_subpackets msg = []" by (rule spec_subpackets_stop)
    with 1(2) show ?thesis by simp
  next
    case False
    then have a: "\<not> length msg < 4" "\<not> length msg < 4 + declared_words msg * 4" by simp_all
    from 1(2) spec_subpackets_step [OF a]
    consider "pk = take (4 + declared_words msg * 4) msg"
      | "pk \<in> set (spec_subpackets (drop (4 + declared_words msg * 4) msg))"
      by auto
    then show ?thesis
    proof cases
      case 1
      then show ?thesis using a by (simp add: wellFormed_def declared_words_take)
    next
      case 2
      then show ?thesis using "1.IH" False by simp
    qed
  qed
qed

lemma spec_subpackets_prefix:
  "\<exists>rest. msg = concat (spec_subpackets msg) @ rest \<and> stopsWalk rest"
proof (induction msg rule: spec_subpackets.induct)
  case (1 msg)
  show ?case
  proof (cases "length msg < 4 \<or> length msg < 4 + declared_words msg * 4")
    case True
    then have "spec_subpackets msg = []" by (rule spec_subpackets_stop)
    then show ?thesis using True by (simp add: stopsWalk_def)
  next
    case False
    then have a: "\<not> length msg < 4" "\<not> length msg < 4 + declared_words msg * 4" by simp_all
    obtain rest where r: "drop (4 + declared_words msg * 4) msg
        = concat (spec_subpackets (drop (4 + declared_words msg * 4) msg)) @ rest"
      "stopsWalk rest"
      using "1.IH" False by blast
    have "msg = take (4 + declared_words msg * 4) msg @ drop (4 + declared_words msg * 4) msg"
      by simp
    also have "\<dots> = take (4 + declared_words msg * 4) msg
          @ concat (spec_subpackets (drop (4 + declared_words msg * 4) msg)) @ rest"
      using r(1) by (rule arg_cong)
    also have "\<dots> = concat (spec_subpackets msg) @ rest"
      by (simp add: spec_subpackets_step [OF a])
    finally show ?thesis using r(2) by blast
  qed
qed

lemma spec_subpackets_concat:
  assumes "\<forall>pk\<in>set pks. wellFormed pk" "stopsWalk rest"
  shows "spec_subpackets (concat pks @ rest) = pks"
  using assms
proof (induction pks)
  case Nil
  then show ?case by (simp add: stopsWalk_def spec_subpackets_stop)
next
  case (Cons pk pks)
  define m where "m = concat pks @ rest"
  have w: "length pk = 4 + declared_words pk * 4" using Cons.prems by (simp add: wellFormed_def)
  then have l: "4 \<le> length pk" by simp
  have d: "declared_words (pk @ m) = declared_words pk" by (rule declared_words_append [OF l])
  have a: "\<not> length (pk @ m) < 4" "\<not> length (pk @ m) < 4 + declared_words (pk @ m) * 4"
    using w by (simp_all add: d)
  have "spec_subpackets (pk @ m) = pk # spec_subpackets m"
    using spec_subpackets_step [OF a] w by (simp add: d)
  moreover have "spec_subpackets m = pks"
    unfolding m_def using Cons by simp
  ultimately show ?case by (simp add: m_def)
qed

text \<open>
  Claim C4. For every buffer and every transform, \<open>processRTCPMessage\<close> computes what
  the decode of the specification computes: the walk starts at offset 0, a sub-packet is
  4 plus 4 times the big-endian word count at offsets 2 and 3 bytes long, the walk stops
  without error as soon as fewer than 4 bytes remain or the sub-packet would end beyond
  the buffer, the transform sees the sub-packets in order, the walk moves on by the
  sub-packet's length whether the transform kept it or not, and the kept ones are
  concatenated in order. Every sub-packet the walk finds is as long as it declares, and
  the buffer is those sub-packets followed by a remainder that stops the walk and is
  discarded; no error comes from the codec itself.
\<close>

theorem processRTCPMessage_decode:
  "processRTCPMessage t msg s = spec_codec t msg s
   \<and> (\<forall>pk\<in>set (spec_subpackets msg). wellFormed pk)
   \<and> (\<exists>rest. msg = concat (spec_subpackets msg) @ rest \<and> stopsWalk rest)"
proof (intro conjI ballI)
  show "processRTCPMessage t msg s = spec_codec t msg s"
    by (rule processRTCPMessage_refines)
  show "wellFormed pk" if "pk \<in> set (spec_subpackets msg)" for pk
    using that by (rule spec_subpackets_wellFormed)
  show "\<exists>rest. msg = concat (spec_subpackets msg) @ rest \<and> stopsWalk rest"
    by (rule spec_subpackets_prefix)
qed

lemma spec_subpackets_msgT: "spec_subpackets msgT = [take 8 msgT]"
  by (simp add: msgT_def spec_subpackets.simps declared_words_def)

theorem processRTCPMessage_decode_witness:
  "processRTCPMessage keepAll msgT () = (Inr (Some (take 8 msgT)), ())
   \<and> spec_subpackets msgT = [take 8 msgT]
   \<and> wellFormed (take 8 msgT)
   \<and> msgT = take 8 msgT @ drop 8 msgT \<and> stopsWalk (drop 8 msgT)"
proof -
  note s = spec_subpackets_msgT
  note t = processRTCPMessage_decode [of keepAll msgT "()"]
  have e: "processRTCPMessage keepAll msgT () = spec_codec keepAll msgT ()"
    using t by (rule conjunct1)
  have w: "wellFormed (take 8 msgT)"
    using t [THEN conjunct2, THEN conjunct1] by (simp add: s)
  have c: "spec_codec keepAll msgT () = (Inr (Some (take 8 msgT)), ())"
    by (simp add: spec_codec_def s keepAll_def)
  have st: "stopsWalk (drop 8 msgT)" by (simp add: stopsWalk_def msgT_def declared_words_def)
  have sp: "msgT = take 8 msgT @ drop 8 msgT" by simp
  show ?thesis
    by (intro conjI s w st sp) (simp only: e c)
qed

subsection \<open>The forward RTCP path\<close>

lemma writeUInt32BE_splice:
  assumes "uint32 v" "offset + 4 \<le> length buf"
  shows "writeUInt32BE buf v offset = Inr (take offset buf @ be32 v @ drop (offset + 4) buf)"
proof -
  have v: "0 \<le> v" "v < 4294967296" using assms(1) by (simp_all add: uint32_def)
  have "buf[offset + 3 := word_of_int v,
            offset + 2 := word_of_int (v div 256),
            offset + 1 := word_of_int (v div 65536),
            offset := word_of_int (v div 16777216)]
        = take offset buf @ be32 v @ drop (offset + 4) buf"
    using assms(2)
    by (intro nth_equalityI)
       (auto simp: be32_def nth_append nth_list_update nth_Cons' min_def simp del: of_int_numeral)
  then show ?thesis
    by (simp only: writeUInt32BE_ok [OF v assms(2)])
qed

lemma readUInt32BE_u32be:
  "offset + 4 \<le> length buf \<Longrightarrow> readUInt32BE buf offset = Inr (u32be buf offset)"
  by (simp add: readUInt32BE_def u32be_def)

lemma spec_learn_None [simp]: "spec_learn p None = p"
  by (simp add: spec_learn_def split: option.splits)

lemma spec_learn_merge:
  "spec_learn (spec_learn p a) b = spec_learn p (case a of None \<Rightarrow> b | Some v \<Rightarrow> Some v)"
  by (simp add: spec_learn_def split: option.splits)

lemma spec_learn_frame [simp]:
  "outgoingSSRC (spec_learn p a) = outgoingSSRC p"
  "sent (spec_learn p a) = sent p"
  "outgoingPort (spec_learn p a) = outgoingPort p"
  "outgoingAddress (spec_learn p a) = outgoingAddress p"
  "outgoingPayloadType (spec_learn p a) = outgoingPayloadType p"
  "sendReady (spec_learn p a) k = sendReady p k"
  by (simp_all add: spec_learn_def sendReady_def split: option.splits)

lemma incomingSSRC_spec_learn:
  "incomingSSRC (spec_learn p a) =
     (case incomingSSRC p of Some v \<Rightarrow> Some v | None \<Rightarrow> map_option int a)"
  by (simp add: spec_learn_def split: option.splits)

text \<open>The forward transform: the state it leaves is the set-if-absent merge of the
  sub-packet's offer, whether or not the write raises; it raises only on a Sender Report.\<close>

lemma rtcpMessage_transform_state:
  "snd (rtcpMessage_transform (unat (pk ! 1)) pk p) = spec_learn p (spec_srSSRC pk)"
  by (auto simp: rtcpMessage_transform_def spec_srSSRC_def spec_learn_def readUInt32BE_u32be
           split: sum.splits option.splits)

lemma rtcpMessage_transform_error:
  "fst (rtcpMessage_transform (unat (pk ! 1)) pk p) = Inl e \<Longrightarrow> spec_srSSRC pk \<noteq> None"
  by (auto simp: rtcpMessage_transform_def spec_srSSRC_def split: sum.splits if_splits)

lemma rtcpMessage_transform_ok:
  assumes "uint32 (outgoingSSRC p)"
  shows "fst (rtcpMessage_transform (unat (pk ! 1)) pk p)
           = Inr (Some (spec_forward (outgoingSSRC p) pk))"
proof (cases "unat (pk ! 1) = 200 \<and> 8 \<le> length pk")
  case False
  then show ?thesis by (auto simp: rtcpMessage_transform_def spec_forward_def)
next
  case True
  then have l: "4 + 4 \<le> length pk" by simp
  have w: "writeUInt32BE pk (outgoingSSRC p) 4 = Inr (take 4 pk @ be32 (outgoingSSRC p) @ drop 8 pk)"
    using writeUInt32BE_splice [OF assms l] by simp
  show ?thesis
    using True w
    by (auto simp: rtcpMessage_transform_def spec_forward_def readUInt32BE_u32be
             split: sum.splits)
qed

lemma spec_first_Cons:
  "spec_first (a # xs) = (case a of None \<Rightarrow> spec_first xs | Some v \<Rightarrow> Some v)"
  by (cases a) simp_all

lemma forward_all_state:
  "snd (spec_transformAll rtcpMessage_transform pks acc p)
     = spec_learn p (spec_first (map spec_srSSRC pks))"
proof (induction pks arbitrary: acc p)
  case Nil
  then show ?case by simp
next
  case (Cons pk pks)
  obtain r p1 where t: "rtcpMessage_transform (unat (pk ! 1)) pk p = (r, p1)"
    by (cases "rtcpMessage_transform (unat (pk ! 1)) pk p")
  have p1: "p1 = spec_learn p (spec_srSSRC pk)"
    using rtcpMessage_transform_state [of pk p] t by simp
  show ?case
  proof (cases r)
    case (Inl e)
    then have "spec_srSSRC pk \<noteq> None"
      using rtcpMessage_transform_error [of pk p e] t by simp
    then show ?thesis using t Inl p1 by (auto simp: spec_first_Cons)
  next
    case (Inr x)
    have "snd (spec_transformAll rtcpMessage_transform (pk # pks) acc p)
          = spec_learn p1 (spec_first (map spec_srSSRC pks))"
      using t Inr Cons.IH by simp
    then show ?thesis
      by (simp add: p1 spec_learn_merge spec_first_Cons)
  qed
qed

lemma forward_all_ok:
  assumes "uint32 (outgoingSSRC p)"
  shows "fst (spec_transformAll rtcpMessage_transform pks acc p)
           = Inr (acc @ map (spec_forward (outgoingSSRC p)) pks)"
  using assms
proof (induction pks arbitrary: acc p)
  case Nil
  then show ?case by simp
next
  case (Cons pk pks)
  obtain r p1 where t: "rtcpMessage_transform (unat (pk ! 1)) pk p = (r, p1)"
    by (cases "rtcpMessage_transform (unat (pk ! 1)) pk p")
  have r: "r = Inr (Some (spec_forward (outgoingSSRC p) pk))"
    using rtcpMessage_transform_ok [OF Cons.prems, of pk] t by simp
  have p1: "outgoingSSRC p1 = outgoingSSRC p"
    using rtcpMessage_transform_state [of pk p] t by simp
  then have u: "uint32 (outgoingSSRC p1)" using Cons.prems by simp
  show ?case
    using t r Cons.IH [OF u] p1 by simp
qed

text \<open>The forward path as a whole.\<close>

lemma processRTCPMessage_forward:
  assumes "uint32 (outgoingSSRC p)"
  shows "processRTCPMessage rtcpMessage_transform msg p =
           (Inr (if spec_subpackets msg = [] then None
                 else Some (concat (map (spec_forward (outgoingSSRC p)) (spec_subpackets msg)))),
            spec_learn p (spec_first (map spec_srSSRC (spec_subpackets msg))))"
proof -
  obtain r p' where t: "spec_transformAll rtcpMessage_transform (spec_subpackets msg) [] p = (r, p')"
    by (cases "spec_transformAll rtcpMessage_transform (spec_subpackets msg) [] p")
  have "r = Inr (map (spec_forward (outgoingSSRC p)) (spec_subpackets msg))"
    using forward_all_ok [OF assms, of "spec_subpackets msg" "[]"] t by simp
  moreover have "p' = spec_learn p (spec_first (map spec_srSSRC (spec_subpackets msg)))"
    using forward_all_state [of "spec_subpackets msg" "[]" p] t by simp
  ultimately show ?thesis
    using t by (simp add: processRTCPMessage_refines spec_codec_def)
qed

lemma wellFormed_forward:
  "wellFormed pk \<Longrightarrow> wellFormed (spec_forward v pk)"
  by (auto simp: wellFormed_def spec_forward_def declared_words_def be32_def nth_append)

lemma length_forward [simp]: "length (spec_forward v pk) = length pk"
  by (auto simp: spec_forward_def be32_def)

lemma forward_field:
  assumes "uint32 v" "unat (pk ! 1) = 200" "8 \<le> length pk"
  shows "readUInt32BE (spec_forward v pk) 4 = Inr (nat v)"
    and "\<forall>i. i < 4 \<or> 8 \<le> i \<longrightarrow> spec_forward v pk ! i = pk ! i"
proof -
  have l: "4 + 4 \<le> length pk" using assms(3) by simp
  have v: "0 \<le> v" "v < 4294967296" using assms(1) by (simp_all add: uint32_def)
  have w: "writeUInt32BE pk v 4 = Inr (spec_forward v pk)"
    using writeUInt32BE_splice [OF assms(1) l] assms(2,3) by (simp add: spec_forward_def)
  from write_then_read32 [OF v l] w
  show "readUInt32BE (spec_forward v pk) 4 = Inr (nat v)"
    and "\<forall>i. i < 4 \<or> 8 \<le> i \<longrightarrow> spec_forward v pk ! i = pk ! i"
    by auto
qed

lemma stopsWalk_Nil: "stopsWalk []"
  by (simp add: stopsWalk_def)

lemma spec_subpackets_wellFormed_list:
  "\<forall>pk\<in>set pks. wellFormed pk \<Longrightarrow> spec_subpackets (concat pks) = pks"
  using spec_subpackets_concat [of pks "[]"] by (simp add: stopsWalk_Nil)

text \<open>
  Claim C6. On the forward RTCP path, for a compound buffer made of well-formed
  sub-packets (at least one), with a 32-bit outgoing SSRC and a configured peer: one
  datagram is sent without error, and it is the concatenation, in the original order, of
  the sub-packets passed through \<open>spec_forward\<close>; decoded again it has the same number of
  sub-packets. A Sender Report (type 200) of at least 8 bytes keeps its length, carries the
  outgoing SSRC at offset 4 and is unchanged outside bytes 4 to 7; every other
  sub-packet, and a shorter Sender Report, is byte for byte the input. Scenario E is the
  witness.
\<close>

theorem rtcpMessage_forward:
  assumes "\<forall>pk\<in>set pks. wellFormed pk" "pks \<noteq> []" "sendReady p k" "uint32 (outgoingSSRC p)"
  shows "fst (rtcpMessage p (concat pks)) = None
       \<and> sent (snd (rtcpMessage p (concat pks)))
           = sent p @ [(k, concat (map (spec_forward (outgoingSSRC p)) pks),
                        outgoingPort p, outgoingAddress p)]
       \<and> spec_subpackets (concat (map (spec_forward (outgoingSSRC p)) pks))
           = map (spec_forward (outgoingSSRC p)) pks
       \<and> (\<forall>pk\<in>set pks.
             if unat (pk ! 1) = 200 \<and> 8 \<le> length pk
             then length (spec_forward (outgoingSSRC p) pk) = length pk
                  \<and> readUInt32BE (spec_forward (outgoingSSRC p) pk) 4 = Inr (nat (outgoingSSRC p))
                  \<and> (\<forall>i. i < 4 \<or> 8 \<le> i \<longrightarrow> spec_forward (outgoingSSRC p) pk ! i = pk ! i)
             else spec_forward (outgoingSSRC p) pk = pk)"
proof -
  define out where "out = concat (map (spec_forward (outgoingSSRC p)) pks)"
  define p' where "p' = spec_learn p (spec_first (map spec_srSSRC pks))"
  have sp: "spec_subpackets (concat pks) = pks"
    by (rule spec_subpackets_wellFormed_list [OF assms(1)])
  have c: "processRTCPMessage rtcpMessage_transform (concat pks) p = (Inr (Some out), p')"
    using processRTCPMessage_forward [OF assms(4), of "concat pks"] assms(2)
    by (simp add: sp out_def p'_def)
  have r: "sendReady p' k" using assms(3) by (simp add: p'_def)
  have "rtcpMessage p (concat pks) = sendOut p' out"
    by (simp add: rtcpMessage_def c)
  then have m: "rtcpMessage p (concat pks)
      = (None, p'\<lparr>sent := sent p' @ [(k, out, outgoingPort p', outgoingAddress p')]\<rparr>)"
    by (simp only: sendOut_ready [OF r])
  have a: "fst (rtcpMessage p (concat pks)) = None" by (simp add: m)
  have b: "sent (snd (rtcpMessage p (concat pks)))
           = sent p @ [(k, out, outgoingPort p, outgoingAddress p)]"
    by (simp add: m p'_def)
  have w: "\<forall>pk\<in>set (map (spec_forward (outgoingSSRC p)) pks). wellFormed pk"
    using assms(1) by (auto intro: wellFormed_forward)
  have d: "spec_subpackets out = map (spec_forward (outgoingSSRC p)) pks"
    unfolding out_def by (rule spec_subpackets_wellFormed_list [OF w])
  have e: "if unat (pk ! 1) = 200 \<and> 8 \<le> length pk
             then length (spec_forward (outgoingSSRC p) pk) = length pk
                  \<and> readUInt32BE (spec_forward (outgoingSSRC p) pk) 4 = Inr (nat (outgoingSSRC p))
                  \<and> (\<forall>i. i < 4 \<or> 8 \<le> i \<longrightarrow> spec_forward (outgoingSSRC p) pk ! i = pk ! i)
             else spec_forward (outgoingSSRC p) pk = pk" for pk
  proof (cases "unat (pk ! 1) = 200 \<and> 8 \<le> length pk")
    case True
    then show ?thesis
      using forward_field [OF assms(4), of pk] by simp
  next
    case False
    then show ?thesis by (auto simp: spec_forward_def)
  qed
  show ?thesis
    unfolding out_def [symmetric]
    using a b d e by (intro conjI ballI)
qed

lemma wellFormed_E: "wellFormed srE" "wellFormed appE"
  by (simp_all add: wellFormed_def declared_words_def srE_def appE_def)

theorem rtcpMessage_forward_witness:
  "wellFormed srE \<and> wellFormed appE \<and> [srE, appE] \<noteq> [] \<and> sendReady proxy0 4
   \<and> uint32 (outgoingSSRC proxy0)
   \<and> fst (rtcpMessage proxy0 (srE @ appE)) = None
   \<and> sent (snd (rtcpMessage proxy0 (srE @ appE)))
        = [(4, (take 4 srE @ [0xAA, 0xAA, 0xAA, 0xAA] @ drop 8 srE) @ appE, 5000, ''127.0.0.1'')]
   \<and> spec_subpackets ((take 4 srE @ [0xAA, 0xAA, 0xAA, 0xAA] @ drop 8 srE) @ appE)
        = [take 4 srE @ [0xAA, 0xAA, 0xAA, 0xAA] @ drop 8 srE, appE]"
proof -
  have h1: "\<forall>pk\<in>set [srE, appE]. wellFormed pk" by (simp add: wellFormed_E)
  have h2: "[srE, appE] \<noteq> []" by simp
  have h3: "sendReady proxy0 4" by (simp add: sendReady_def proxy0_def)
  have h4: "uint32 (outgoingSSRC proxy0)" by (simp add: uint32_def proxy0_def)
  have f: "map (spec_forward (outgoingSSRC proxy0)) [srE, appE]
           = [take 4 srE @ [0xAA, 0xAA, 0xAA, 0xAA] @ drop 8 srE, appE]"
    by (simp add: spec_forward_def be32_def proxy0_def srE_def appE_def)
  have c: "sent proxy0 = []" "outgoingPort proxy0 = 5000" "outgoingAddress proxy0 = ''127.0.0.1''"
    by (simp_all add: proxy0_def)
  have cc: "concat [srE, appE] = srE @ appE"
    "concat [take 4 srE @ [0xAA, 0xAA, 0xAA, 0xAA] @ drop 8 srE, appE]
       = (take 4 srE @ [0xAA, 0xAA, 0xAA, 0xAA] @ drop 8 srE) @ appE"
    by simp_all
  note t = rtcpMessage_forward [OF h1 h2 h3 h4, unfolded f c cc append_Nil]
  show ?thesis
    by (intro conjI wellFormed_E h2 h3 h4 t [THEN conjunct1] t [THEN conjunct2, THEN conjunct1]
         t [THEN conjunct2, THEN conjunct2, THEN conjunct1])
qed

subsection \<open>Dropped sub-packets and empty output\<close>


lemma snd_spec_codec:
  "snd (spec_codec t msg s) = snd (spec_transformAll t (spec_subpackets msg) [] s)"
  by (simp add: spec_codec_def split: prod.splits sum.splits)

lemma rtcpReply_transform_state: "snd (rtcpReply_transform pt pk p) = p"
  by (simp add: rtcpReply_transform_def split: sum.splits)

lemma reply_all_state: "snd (spec_transformAll rtcpReply_transform pks acc p) = p"
proof (induction pks arbitrary: acc)
  case Nil
  then show ?case by simp
next
  case (Cons pk pks)
  obtain r p1 where t: "rtcpReply_transform (unat (pk ! 1)) pk p = (r, p1)"
    by (cases "rtcpReply_transform (unat (pk ! 1)) pk p")
  then have "p1 = p" using rtcpReply_transform_state [of "unat (pk ! 1)" pk p] by simp
  then show ?case using t Cons.IH by (cases r) simp_all
qed






subsection \<open>The reply RTCP path\<close>

lemma rtcpReply_transform_ok:
  assumes "uint32 (ToNumber (incomingSSRC p))"
  shows "rtcpReply_transform (unat (pk ! 1)) pk p
           = (Inr (Some (spec_reply (ToNumber (incomingSSRC p)) pk)), p)"
proof (cases "unat (pk ! 1) = 201 \<and> 12 \<le> length pk")
  case False
  then show ?thesis by (auto simp: rtcpReply_transform_def spec_reply_def)
next
  case True
  then have l: "8 + 4 \<le> length pk" by simp
  have w: "writeUInt32BE pk (ToNumber (incomingSSRC p)) 8
             = Inr (take 8 pk @ be32 (ToNumber (incomingSSRC p)) @ drop 12 pk)"
    using writeUInt32BE_splice [OF assms l] by simp
  show ?thesis
    using True w by (auto simp: rtcpReply_transform_def spec_reply_def)
qed

lemma reply_all_ok:
  assumes "uint32 (ToNumber (incomingSSRC p))"
  shows "spec_transformAll rtcpReply_transform pks acc p
           = (Inr (acc @ map (spec_reply (ToNumber (incomingSSRC p))) pks), p)"
proof (induction pks arbitrary: acc)
  case Nil
  then show ?case by simp
next
  case (Cons pk pks)
  show ?case
    by (simp only: spec_transformAll.simps rtcpReply_transform_ok [OF assms]
          prod.case sum.case option.case Cons.IH) simp
qed

lemma wellFormed_reply: "wellFormed pk \<Longrightarrow> wellFormed (spec_reply v pk)"
  by (auto simp: wellFormed_def spec_reply_def declared_words_def be32_def nth_append)

lemma reply_field:
  assumes "uint32 v" "unat (pk ! 1) = 201" "12 \<le> length pk"
  shows "readUInt32BE (spec_reply v pk) 8 = Inr (nat v)"
    and "length (spec_reply v pk) = length pk"
    and "\<forall>i. i < 8 \<or> 12 \<le> i \<longrightarrow> spec_reply v pk ! i = pk ! i"
proof -
  have l: "8 + 4 \<le> length pk" using assms(3) by simp
  have v: "0 \<le> v" "v < 4294967296" using assms(1) by (simp_all add: uint32_def)
  have w: "writeUInt32BE pk v 8 = Inr (spec_reply v pk)"
    using writeUInt32BE_splice [OF assms(1) l] assms(2,3) by (simp add: spec_reply_def)
  from write_then_read32 [OF v l] w
  show "readUInt32BE (spec_reply v pk) 8 = Inr (nat v)"
    and "length (spec_reply v pk) = length pk"
    and "\<forall>i. i < 8 \<or> 12 \<le> i \<longrightarrow> spec_reply v pk ! i = pk ! i"
    by auto
qed

text \<open>
  Before any incoming SSRC has been learned the value written is not a learned one, and
  the report is not passed through either: for a Receiver Report of type 201 and 12 bytes
  the write receives \<open>null\<close>, and bytes 8 to 11 of the report that is sent are 0, not
  the 0x33333333 of the input.
\<close>

lemma rtcpReply_unlearned_not_passthrough:
  "incomingSSRC proxy0 = None \<and> unat (rrR ! 1) = 201 \<and> length rrR = 12
   \<and> rtcpReply proxy0 rrR =
       (None, proxy0\<lparr>sent := [(4, [0x81, 0xC9, 0x00, 0x02, 0x00, 0x00, 0x00, 0x01,
                                    0x00, 0x00, 0x00, 0x00], 5000, ''127.0.0.1'')]\<rparr>)"
  by (simp add: rtcpReply_def processRTCPMessage_refines spec_codec_def spec_subpackets.simps
      declared_words_def rrR_def rtcpReply_transform_def writeUInt32BE_def ToNumber_def
      sendOut_def socket_send_def proxy0_def)

text \<open>
  The reply path for any value of the learned-SSRC slot whose conversion to a number is
  a 32-bit value: every Receiver Report (type 201) of at least 12 bytes gets that number
  at offset 8, every other sub-packet passes unmodified, and the result is sent.
\<close>

lemma rtcpReply_rewrite:
  assumes "\<forall>pk\<in>set pks. wellFormed pk" "pks \<noteq> []" "sendReady p k"
    and "uint32 (ToNumber (incomingSSRC p))"
  shows "rtcpReply p (concat pks)
           = (None, p\<lparr>sent := sent p @ [(k, concat (map (spec_reply (ToNumber (incomingSSRC p))) pks),
                                         outgoingPort p, outgoingAddress p)]\<rparr>)
       \<and> (\<forall>pk\<in>set pks.
             if unat (pk ! 1) = 201 \<and> 12 \<le> length pk
             then length (spec_reply (ToNumber (incomingSSRC p)) pk) = length pk
                  \<and> readUInt32BE (spec_reply (ToNumber (incomingSSRC p)) pk) 8
                      = Inr (nat (ToNumber (incomingSSRC p)))
                  \<and> (\<forall>i. i < 8 \<or> 12 \<le> i \<longrightarrow>
                         spec_reply (ToNumber (incomingSSRC p)) pk ! i = pk ! i)
             else spec_reply (ToNumber (incomingSSRC p)) pk = pk)
       \<and> ToNumber (incomingSSRC p) = (case incomingSSRC p of None \<Rightarrow> 0 | Some v \<Rightarrow> v)"
proof -
  define v where "v = ToNumber (incomingSSRC p)"
  define out where "out = concat (map (spec_reply v) pks)"
  have sp: "spec_subpackets (concat pks) = pks"
    by (rule spec_subpackets_wellFormed_list [OF assms(1)])
  have c: "processRTCPMessage rtcpReply_transform (concat pks) p = (Inr (Some out), p)"
    using reply_all_ok [OF assms(4), of pks "[]"] assms(2)
    by (simp add: processRTCPMessage_refines spec_codec_def sp out_def v_def)
  have "rtcpReply p (concat pks) = sendOut p out"
    by (simp add: rtcpReply_def c)
  then have m: "rtcpReply p (concat pks)
      = (None, p\<lparr>sent := sent p @ [(k, out, outgoingPort p, outgoingAddress p)]\<rparr>)"
    by (simp only: sendOut_ready [OF assms(3)])
  have u: "uint32 v" using assms(4) by (simp add: v_def)
  have e: "if unat (pk ! 1) = 201 \<and> 12 \<le> length pk
             then length (spec_reply v pk) = length pk
                  \<and> readUInt32BE (spec_reply v pk) 8 = Inr (nat v)
                  \<and> (\<forall>i. i < 8 \<or> 12 \<le> i \<longrightarrow> spec_reply v pk ! i = pk ! i)
             else spec_reply v pk = pk" for pk
  proof (cases "unat (pk ! 1) = 201 \<and> 12 \<le> length pk")
    case True
    then show ?thesis using reply_field [OF u, of pk] by simp
  next
    case False
    then show ?thesis by (auto simp: spec_reply_def)
  qed
  have n: "v = (case incomingSSRC p of None \<Rightarrow> 0 | Some v \<Rightarrow> v)"
    by (simp add: v_def ToNumber_def)
  show ?thesis
    unfolding v_def [symmetric] out_def [symmetric]
    using m e n by (intro conjI ballI)
qed

lemma rtcpReply_rewrite_example:
  "wellFormed rrR \<and> [rrR] \<noteq> [] \<and> sendReady (proxy0\<lparr>incomingSSRC := Some 0x22222222\<rparr>) 4
   \<and> uint32 (ToNumber (incomingSSRC (proxy0\<lparr>incomingSSRC := Some 0x22222222\<rparr>)))
   \<and> rtcpReply (proxy0\<lparr>incomingSSRC := Some 0x22222222\<rparr>) rrR
        = (None, proxy0\<lparr>incomingSSRC := Some 0x22222222,
                         sent := [(4, take 8 rrR @ [0x22, 0x22, 0x22, 0x22], 5000, ''127.0.0.1'')]\<rparr>)"
proof -
  define q where "q = proxy0\<lparr>incomingSSRC := Some 0x22222222\<rparr>"
  have w: "wellFormed rrR" by (simp add: wellFormed_def declared_words_def rrR_def)
  have h1: "\<forall>pk\<in>set [rrR]. wellFormed pk" using w by simp
  have h2: "[rrR] \<noteq> []" by simp
  have h3: "sendReady q 4" by (simp add: q_def sendReady_def proxy0_def)
  have h4: "uint32 (ToNumber (incomingSSRC q))" by (simp add: q_def uint32_def ToNumber_def)
  have f: "concat (map (spec_reply (ToNumber (incomingSSRC q))) [rrR])
           = take 8 rrR @ [0x22, 0x22, 0x22, 0x22]"
    by (simp add: q_def ToNumber_def spec_reply_def be32_def rrR_def)
  have c: "sent q = []" "outgoingPort q = 5000" "outgoingAddress q = ''127.0.0.1''"
    "concat [rrR] = rrR"
    by (simp_all add: q_def proxy0_def)
  note t = rtcpReply_rewrite [OF h1 h2 h3 h4, THEN conjunct1, unfolded f c append_Nil]
  have r: "rtcpReply q rrR
        = (None, proxy0\<lparr>incomingSSRC := Some 0x22222222,
                         sent := [(4, take 8 rrR @ [0x22, 0x22, 0x22, 0x22], 5000, ''127.0.0.1'')]\<rparr>)"
    using t by (simp add: q_def)
  show ?thesis
    using w h2 h3 h4 r unfolding q_def by (intro conjI)
qed

subsection \<open>The learned incoming SSRC\<close>

lemma sendOut_keeps:
  "incomingSSRC (snd (sendOut p m)) = incomingSSRC p"
  "outgoingPayloadType (snd (sendOut p m)) = outgoingPayloadType p"
  by (simp_all add: sendOut_def socket_send_def split: option.splits)

lemma payloadType7_ToNumber:
  "payloadType7 v \<Longrightarrow> 0 \<le> ToNumber v \<and> ToNumber v \<le> 127"
  by (simp add: payloadType7_def ToNumber_def split: option.splits)

lemma rtpMessage_learns:
  assumes "payloadType7 (outgoingPayloadType p)"
  shows "incomingSSRC (snd (rtpMessage p msg))
           = incomingSSRC (spec_learn p (spec_observedSSRC (OnRTP msg)))"
    and "outgoingPayloadType (snd (rtpMessage p msg)) = outgoingPayloadType p"
proof -
  have "incomingSSRC (snd (rtpMessage p msg))
           = incomingSSRC (spec_learn p (spec_observedSSRC (OnRTP msg)))
        \<and> outgoingPayloadType (snd (rtpMessage p msg)) = outgoingPayloadType p"
  proof (cases "length msg < 12")
    case True
    then show ?thesis by (simp add: rtpMessage_short sendOut_keeps)
  next
    case False
    then have len: "12 \<le> length msg" by simp
    define msg1 where "msg1 = (if uint (msg ! 1 AND 0x7F) = incomingPayloadType p
                then msg[1 := (msg ! 1 AND 0x80) OR word_of_int (ToNumber (outgoingPayloadType p))]
                else msg)"
    define p1 where "p1 = spec_learn p (Some (u32be msg 4))"
    have step1: "(if js_and (int (unat (msg ! 1))) 0x7F = incomingPayloadType p
          then writeUInt8 msg (js_or (js_and (int (unat (msg ! 1))) 0x80) (ToNumber (outgoingPayloadType p))) 1
          else Inr msg) = Inr msg1"
      unfolding msg1_def
      by (rule rtp_byte1_step [OF len payloadType7_ToNumber [OF assms]])
    have r8: "readUInt8 msg 1 = Inr (unat (msg ! 1))"
      using len by (simp add: readUInt8_def)
    have rd1: "readUInt32BE msg1 4 = Inr (u32be msg 4)"
      using len by (simp add: readUInt32BE_def u32be_def msg1_def)
    have cap: "(if incomingSSRC p = None
              then (case readUInt32BE msg1 4 of
                      Inl e \<Rightarrow> Inl e
                    | Inr v \<Rightarrow> Inr (p\<lparr>incomingSSRC := Some (int v)\<rparr>))
              else Inr p) = Inr p1"
      by (auto simp: rd1 p1_def spec_learn_def)
    have r: "rtpMessage p msg =
              (case writeUInt32BE msg1 (outgoingSSRC p1) 8 of
                 Inl e \<Rightarrow> (Some e, p1)
               | Inr msg2 \<Rightarrow> sendOut p1 msg2)"
      using False by (simp only: rtpMessage_def if_False r8 sum.case Let_def step1 cap)
    have "incomingSSRC (snd (rtpMessage p msg)) = incomingSSRC p1
          \<and> outgoingPayloadType (snd (rtpMessage p msg)) = outgoingPayloadType p1"
      unfolding r by (cases "writeUInt32BE msg1 (outgoingSSRC p1) 8") (simp_all add: sendOut_keeps)
    then show ?thesis using len by (simp add: p1_def)
  qed
  then show "incomingSSRC (snd (rtpMessage p msg))
           = incomingSSRC (spec_learn p (spec_observedSSRC (OnRTP msg)))"
    and "outgoingPayloadType (snd (rtpMessage p msg)) = outgoingPayloadType p"
    by simp_all
qed

lemma snd_processRTCPMessage_forward:
  "snd (processRTCPMessage rtcpMessage_transform msg p)
     = spec_learn p (spec_first (map spec_srSSRC (spec_subpackets msg)))"
  by (simp add: processRTCPMessage_refines snd_spec_codec forward_all_state)

lemma snd_processRTCPMessage_reply:
  "snd (processRTCPMessage rtcpReply_transform msg p) = p"
  by (simp add: processRTCPMessage_refines snd_spec_codec reply_all_state)

lemma rtcpMessage_learns:
  "incomingSSRC (snd (rtcpMessage p msg))
     = incomingSSRC (spec_learn p (spec_observedSSRC (OnRTCP msg)))"
  "outgoingPayloadType (snd (rtcpMessage p msg)) = outgoingPayloadType p"
proof -
  obtain r p' where c: "processRTCPMessage rtcpMessage_transform msg p = (r, p')"
    by (cases "processRTCPMessage rtcpMessage_transform msg p")
  have p': "p' = spec_learn p (spec_first (map spec_srSSRC (spec_subpackets msg)))"
    using snd_processRTCPMessage_forward [of msg p] c by simp
  have "incomingSSRC (snd (rtcpMessage p msg)) = incomingSSRC p'
        \<and> outgoingPayloadType (snd (rtcpMessage p msg)) = outgoingPayloadType p'"
    by (simp add: rtcpMessage_def c sendOut_keeps split: sum.splits option.splits)
  then show "incomingSSRC (snd (rtcpMessage p msg))
     = incomingSSRC (spec_learn p (spec_observedSSRC (OnRTCP msg)))"
    "outgoingPayloadType (snd (rtcpMessage p msg)) = outgoingPayloadType p"
    by (simp_all add: p')
qed

lemma rtcpReply_learns:
  "incomingSSRC (snd (rtcpReply p msg))
     = incomingSSRC (spec_learn p (spec_observedSSRC (OnReply msg)))"
  "outgoingPayloadType (snd (rtcpReply p msg)) = outgoingPayloadType p"
proof -
  obtain r p' where c: "processRTCPMessage rtcpReply_transform msg p = (r, p')"
    by (cases "processRTCPMessage rtcpReply_transform msg p")
  have p': "p' = p"
    using snd_processRTCPMessage_reply [of msg p] c by simp
  have "incomingSSRC (snd (rtcpReply p msg)) = incomingSSRC p'
        \<and> outgoingPayloadType (snd (rtcpReply p msg)) = outgoingPayloadType p'"
    by (simp add: rtcpReply_def c sendOut_keeps split: sum.splits option.splits)
  then show "incomingSSRC (snd (rtcpReply p msg))
     = incomingSSRC (spec_learn p (spec_observedSSRC (OnReply msg)))"
    "outgoingPayloadType (snd (rtcpReply p msg)) = outgoingPayloadType p"
    by (simp_all add: p')
qed

lemma deliver_learns:
  assumes "payloadType7 (outgoingPayloadType p)"
  shows "incomingSSRC (snd (deliver p d)) = incomingSSRC (spec_learn p (spec_observedSSRC d))"
    and "outgoingPayloadType (snd (deliver p d)) = outgoingPayloadType p"
  using rtpMessage_learns [OF assms] rtcpMessage_learns [of p] rtcpReply_learns [of p]
  by (cases d; simp)+

lemma incomingSSRC_spec_learn_cong:
  "incomingSSRC p = incomingSSRC q \<Longrightarrow> incomingSSRC (spec_learn p a) = incomingSSRC (spec_learn q a)"
  by (simp add: incomingSSRC_spec_learn)

lemma deliverAll_learns:
  "payloadType7 (outgoingPayloadType p) \<Longrightarrow>
   incomingSSRC (deliverAll p ds)
     = incomingSSRC (spec_learn p (spec_first (map spec_observedSSRC ds)))"
proof (induction ds arbitrary: p)
  case Nil
  then show ?case by simp
next
  case (Cons d ds)
  define p1 where "p1 = snd (deliver p d)"
  have i: "incomingSSRC p1 = incomingSSRC (spec_learn p (spec_observedSSRC d))"
    and o: "payloadType7 (outgoingPayloadType p1)"
    using deliver_learns [OF Cons.prems, of d] Cons.prems by (simp_all add: p1_def)
  have "incomingSSRC (deliverAll p (d # ds))
        = incomingSSRC (spec_learn p1 (spec_first (map spec_observedSSRC ds)))"
    using Cons.IH [OF o] by (simp add: p1_def)
  also have "\<dots> = incomingSSRC (spec_learn (spec_learn p (spec_observedSSRC d))
                       (spec_first (map spec_observedSSRC ds)))"
    by (rule incomingSSRC_spec_learn_cong [OF i])
  also have "\<dots> = incomingSSRC (spec_learn p (spec_first (map spec_observedSSRC (d # ds))))"
    by (simp add: spec_learn_merge spec_first_Cons)
  finally show ?case .
qed

text \<open>
  Claim C2. The learned incoming SSRC is write-once-if-unset. After any run of datagrams
  on the three listeners, handled one after the other (with an outgoing payload type
  that is unset or a 7-bit value): if an incoming SSRC was already learned it is still
  the same value, whatever the later datagrams carry; if none was learned it is the
  offer of the first datagram that offers one, where an RTP packet of at least 12 bytes
  offers the value at byte offset 4, a forward RTCP compound offers the value at
  sub-packet offset 4 of its first Sender Report (type 200) of at least 8 bytes, and
  nothing else offers a value. This holds also when a handler raises.
\<close>

theorem incomingSSRC_write_once:
  assumes "payloadType7 (outgoingPayloadType p)"
  shows "incomingSSRC (deliverAll p ds)
           = (case incomingSSRC p of
                Some v \<Rightarrow> Some v
              | None \<Rightarrow> map_option int (spec_first (map spec_observedSSRC ds)))"
  using deliverAll_learns [OF assms, of ds] by (simp add: incomingSSRC_spec_learn)

lemma spec_first_datagramsW: "spec_first (map spec_observedSSRC datagramsW) = Some 0x22222222"
proof -
  have "spec_subpackets (concat [srE, appE]) = [srE, appE]"
    by (rule spec_subpackets_wellFormed_list) (simp add: wellFormed_E)
  then have s: "spec_subpackets (srE @ appE) = [srE, appE]" by simp
  have "spec_srSSRC srE = Some 0x22222222"
    by (simp add: spec_srSSRC_def u32be_def srE_def)
  then show ?thesis
    by (simp add: datagramsW_def s)
qed

theorem incomingSSRC_write_once_witness:
  "payloadType7 (outgoingPayloadType proxyA) \<and> incomingSSRC proxyA = None
   \<and> incomingSSRC (deliverAll proxyA datagramsW) = Some 0x22222222
   \<and> payloadType7 (outgoingPayloadType (proxyA\<lparr>incomingSSRC := Some 7\<rparr>))
   \<and> incomingSSRC (deliverAll (proxyA\<lparr>incomingSSRC := Some 7\<rparr>) datagramsW) = Some 7"
proof -
  have h: "payloadType7 (outgoingPayloadType proxyA)"
    by (simp add: payloadType7_def proxyA_def proxy0_def)
  have h': "payloadType7 (outgoingPayloadType (proxyA\<lparr>incomingSSRC := Some 7\<rparr>))"
    using h by simp
  have n: "incomingSSRC proxyA = None" by (simp add: proxyA_def proxy0_def)
  have a: "incomingSSRC (deliverAll proxyA datagramsW) = Some 0x22222222"
    using incomingSSRC_write_once [OF h, of datagramsW]
    by (simp add: n spec_first_datagramsW)
  have b: "incomingSSRC (deliverAll (proxyA\<lparr>incomingSSRC := Some 7\<rparr>) datagramsW) = Some 7"
    using incomingSSRC_write_once [OF h', of datagramsW] by simp
  show ?thesis
    by (intro conjI h n a h' b)
qed

subsection \<open>The reply path after an SSRC has been learned\<close>

lemma unat_byte_less: "unat (w :: byte) < 256"
  using unsigned_less [of w, where ?'a = nat] by simp

lemma u32be_less: "u32be b off < 4294967296"
  using unat_byte_less [of "b ! off"] unat_byte_less [of "b ! (off + 1)"]
        unat_byte_less [of "b ! (off + 2)"] unat_byte_less [of "b ! (off + 3)"]
  unfolding u32be_def by linarith

lemma uint32_of_nat: "n < 4294967296 \<Longrightarrow> uint32 (int n)"
  by (simp add: uint32_def)

lemma uint32_u32be: "uint32 (int (u32be b off))"
  by (rule uint32_of_nat [OF u32be_less])

lemma readUInt32BE_uint32: "readUInt32BE b off = Inr v \<Longrightarrow> uint32 (int v)"
proof -
  assume "readUInt32BE b off = Inr v"
  then have "v = u32be b off"
    by (simp add: readUInt32BE_def u32be_def split: if_splits)
  then show ?thesis by (simp only: uint32_u32be)
qed

lemma learnedOk_spec_learn:
  "learnedOk p \<Longrightarrow> (\<And>v. a = Some v \<Longrightarrow> uint32 (int v)) \<Longrightarrow> learnedOk (spec_learn p a)"
  by (auto simp: learnedOk_def spec_learn_def split: option.splits)

lemma learnedOk_cong: "incomingSSRC q = incomingSSRC p \<Longrightarrow> learnedOk q = learnedOk p"
  by (simp add: learnedOk_def)

lemma spec_srSSRC_uint32: "spec_srSSRC pk = Some v \<Longrightarrow> uint32 (int v)"
  using uint32_u32be [of pk 4] by (auto simp: spec_srSSRC_def split: if_splits)

lemma spec_first_srSSRC_uint32:
  "spec_first (map spec_srSSRC pks) = Some v \<Longrightarrow> uint32 (int v)"
proof (induction pks)
  case Nil
  then show ?case by simp
next
  case (Cons pk pks)
  then show ?case
    by (cases "spec_srSSRC pk") (auto dest: spec_srSSRC_uint32)
qed

lemma rtpMessage_learnedOk: "learnedOk p \<Longrightarrow> learnedOk (snd (rtpMessage p msg))"
  by (auto simp: rtpMessage_def Let_def learnedOk_def sendOut_keeps
           dest: readUInt32BE_uint32 split: sum.splits if_splits option.splits)

lemma rtcpMessage_learnedOk: "learnedOk p \<Longrightarrow> learnedOk (snd (rtcpMessage p msg))"
proof -
  assume a: "learnedOk p"
  have "learnedOk (spec_learn p (spec_observedSSRC (OnRTCP msg)))"
    using a by (rule learnedOk_spec_learn) (auto dest: spec_first_srSSRC_uint32)
  then show ?thesis
    using learnedOk_cong [OF rtcpMessage_learns(1) [of p msg]] by simp
qed

lemma rtcpReply_learnedOk: "learnedOk p \<Longrightarrow> learnedOk (snd (rtcpReply p msg))"
  using learnedOk_cong [OF rtcpReply_learns(1) [of p msg]] by simp

lemma deliver_learnedOk: "learnedOk p \<Longrightarrow> learnedOk (snd (deliver p d))"
  by (cases d) (simp_all add: rtpMessage_learnedOk rtcpMessage_learnedOk rtcpReply_learnedOk)

lemma deliverAll_learnedOk: "learnedOk p \<Longrightarrow> learnedOk (deliverAll p ds)"
  by (induction ds arbitrary: p) (simp_all add: deliver_learnedOk)

text \<open>
  Claim C9. The reply-path rewrite of a Receiver Report is well-defined under the
  precondition that an incoming SSRC has been learned from earlier traffic: when a run of
  datagrams, started with no SSRC learned, has left the value \<open>v\<close> in the slot, then
  \<open>v\<close> is a 32-bit value, and a reply compound of well-formed sub-packets (at least
  one) is rewritten and sent without error: every Receiver Report (type 201) of at least
  12 bytes carries \<open>v\<close> at sub-packet offset 8 and is unchanged elsewhere, and every
  other sub-packet passes unmodified. Without the precondition the theorem promises
  nothing; \<open>rtcpReply_unlearned_not_passthrough\<close> shows a report that is then
  neither passed through nor given a learned value.
\<close>

theorem rtcpReply_learned:
  assumes "incomingSSRC p0 = None" "incomingSSRC (deliverAll p0 ds) = Some v"
    and "sendReady (deliverAll p0 ds) k"
    and "\<forall>pk\<in>set pks. wellFormed pk" "pks \<noteq> []"
  shows "uint32 v
       \<and> rtcpReply (deliverAll p0 ds) (concat pks)
           = (None, (deliverAll p0 ds)
                \<lparr>sent := sent (deliverAll p0 ds)
                     @ [(k, concat (map (spec_reply v) pks),
                         outgoingPort (deliverAll p0 ds), outgoingAddress (deliverAll p0 ds))]\<rparr>)
       \<and> (\<forall>pk\<in>set pks.
             if unat (pk ! 1) = 201 \<and> 12 \<le> length pk
             then length (spec_reply v pk) = length pk
                  \<and> readUInt32BE (spec_reply v pk) 8 = Inr (nat v)
                  \<and> (\<forall>i. i < 8 \<or> 12 \<le> i \<longrightarrow> spec_reply v pk ! i = pk ! i)
             else spec_reply v pk = pk)"
proof -
  define p where "p = deliverAll p0 ds"
  have "learnedOk p0" using assms(1) by (simp add: learnedOk_def)
  then have "learnedOk p" unfolding p_def by (rule deliverAll_learnedOk)
  then have u: "uint32 v" using assms(2) by (simp add: learnedOk_def p_def)
  have n: "ToNumber (incomingSSRC p) = v" using assms(2) by (simp add: ToNumber_def p_def)
  have u': "uint32 (ToNumber (incomingSSRC p))" using u n by simp
  have r: "sendReady p k" using assms(3) by (simp add: p_def)
  note t = rtcpReply_rewrite [OF assms(4,5) r u', unfolded n]
  show ?thesis
    unfolding p_def [symmetric]
    using u t [THEN conjunct1] t [THEN conjunct2, THEN conjunct1] by (intro conjI)
qed

text \<open>The handlers leave the destination and the outgoing socket as they are.\<close>

lemma sendOut_destination:
  "outgoingPort (snd (sendOut p m)) = outgoingPort p
   \<and> outgoingAddress (snd (sendOut p m)) = outgoingAddress p
   \<and> sendReady (snd (sendOut p m)) k = sendReady p k"
  by (simp add: sendOut_def socket_send_def sendReady_def split: option.splits)

lemma rtpMessage_destination:
  "outgoingPort (snd (rtpMessage p msg)) = outgoingPort p
   \<and> outgoingAddress (snd (rtpMessage p msg)) = outgoingAddress p
   \<and> sendReady (snd (rtpMessage p msg)) k = sendReady p k"
  by (auto simp: rtpMessage_def Let_def sendOut_destination split: sum.splits if_splits)

lemma rtcpMessage_destination:
  "outgoingPort (snd (rtcpMessage p msg)) = outgoingPort p
   \<and> outgoingAddress (snd (rtcpMessage p msg)) = outgoingAddress p
   \<and> sendReady (snd (rtcpMessage p msg)) k = sendReady p k"
proof -
  obtain r p' where c: "processRTCPMessage rtcpMessage_transform msg p = (r, p')"
    by (cases "processRTCPMessage rtcpMessage_transform msg p")
  have "p' = spec_learn p (spec_first (map spec_srSSRC (spec_subpackets msg)))"
    using snd_processRTCPMessage_forward [of msg p] c by simp
  then have "outgoingPort p' = outgoingPort p \<and> outgoingAddress p' = outgoingAddress p
             \<and> sendReady p' k = sendReady p k"
    by simp
  then show ?thesis
    by (simp add: rtcpMessage_def c sendOut_destination split: sum.splits option.splits)
qed

lemma rtcpReply_destination:
  "outgoingPort (snd (rtcpReply p msg)) = outgoingPort p
   \<and> outgoingAddress (snd (rtcpReply p msg)) = outgoingAddress p
   \<and> sendReady (snd (rtcpReply p msg)) k = sendReady p k"
proof -
  obtain r p' where c: "processRTCPMessage rtcpReply_transform msg p = (r, p')"
    by (cases "processRTCPMessage rtcpReply_transform msg p")
  have "p' = p"
    using snd_processRTCPMessage_reply [of msg p] c by simp
  then show ?thesis
    by (simp add: rtcpReply_def c sendOut_destination split: sum.splits option.splits)
qed

lemma deliverAll_destination:
  "outgoingPort (deliverAll p ds) = outgoingPort p
   \<and> outgoingAddress (deliverAll p ds) = outgoingAddress p
   \<and> sendReady (deliverAll p ds) k = sendReady p k"
proof (induction ds arbitrary: p)
  case Nil
  then show ?case by simp
next
  case (Cons d ds)
  have "outgoingPort (snd (deliver p d)) = outgoingPort p
        \<and> outgoingAddress (snd (deliver p d)) = outgoingAddress p
        \<and> sendReady (snd (deliver p d)) k = sendReady p k"
    by (cases d) (simp_all add: rtpMessage_destination rtcpMessage_destination rtcpReply_destination)
  then show ?case using Cons.IH [of "snd (deliver p d)"] by simp
qed

theorem rtcpReply_learned_witness:
  "incomingSSRC proxyA = None
   \<and> incomingSSRC (deliverAll proxyA datagramsW) = Some 0x22222222
   \<and> sendReady (deliverAll proxyA datagramsW) 4
   \<and> wellFormed rrR \<and> [rrR] \<noteq> []
   \<and> uint32 0x22222222
   \<and> rtcpReply (deliverAll proxyA datagramsW) rrR
        = (None, (deliverAll proxyA datagramsW)
             \<lparr>sent := sent (deliverAll proxyA datagramsW)
                @ [(4, [0x81, 0xC9, 0x00, 0x02, 0x00, 0x00, 0x00, 0x01, 0x22, 0x22, 0x22, 0x22],
                    5000, ''127.0.0.1'')]\<rparr>)"
proof -
  define q where "q = deliverAll proxyA datagramsW"
  have h1: "incomingSSRC proxyA = None" by (simp add: proxyA_def proxy0_def)
  have pt: "payloadType7 (outgoingPayloadType proxyA)"
    by (simp add: payloadType7_def proxyA_def proxy0_def)
  have h2: "incomingSSRC q = Some 0x22222222"
    unfolding q_def
    using deliverAll_learns [OF pt, of datagramsW]
    by (simp add: incomingSSRC_spec_learn h1 spec_first_datagramsW)
  have "sendReady proxyA 4" by (simp add: sendReady_def proxyA_def proxy0_def)
  then have h3: "sendReady q 4" by (simp add: q_def deliverAll_destination)
  have w: "wellFormed rrR" by (simp add: wellFormed_def declared_words_def rrR_def)
  have h4: "\<forall>pk\<in>set [rrR]. wellFormed pk" using w by simp
  have h5: "[rrR] \<noteq> []" by simp
  have f: "concat (map (spec_reply 0x22222222) [rrR])
           = [0x81, 0xC9, 0x00, 0x02, 0x00, 0x00, 0x00, 0x01, 0x22, 0x22, 0x22, 0x22]"
    by (simp add: spec_reply_def be32_def rrR_def)
  have o: "outgoingPort q = 5000" "outgoingAddress q = ''127.0.0.1''" "concat [rrR] = rrR"
    by (simp_all add: q_def deliverAll_destination proxyA_def proxy0_def)
  note t = rtcpReply_learned [of proxyA datagramsW "0x22222222" 4 "[rrR]",
      folded q_def, OF h1 h2 h3 h4 h5, unfolded f o]
  show ?thesis
    unfolding q_def [symmetric]
    by (intro conjI h1 h2 h3 w h5 t [THEN conjunct1] t [THEN conjunct2, THEN conjunct1])
qed

subsection \<open>Destruction\<close>





subsection \<open>The adjacent pair allocator: properties\<close>

lemma candidate_0 [simp]: "candidate c 0 = c"
  by (simp add: candidate_def)
















lemma nextCandidate_wraps: "nextCandidate 65534 = 10000" "candidate 65534 1 = 10000"
  by (simp_all add: nextCandidate_def candidate_def)



lemma scenario_C:
  "createSocketPair allPortsFree proxyNew
     = Some (Inr ((0, 1), proxyNew\<lparr>created := 2, bound := [(0, 10000), (1, 10001)]\<rparr>))"
  by (simp add: createSocketPair_def createSocketPair_retry.simps [of _ 0] Let_def
        allPortsFree_def proxyNew_def)



end
